theory Spec2Isabelle
  imports Main
begin

section \<open>Errors and classifications\<close>

text \<open>
  The pipeline of \<^verbatim>\<open>prjxray_form_channels.py\<close> runs against an SQLite connection.
  Every uncaught Python exception aborts the run; the model returns it as the left
  summand of a result.  \<open>AssertionError\<close> is a failed \<^verbatim>\<open>assert\<close>, \<open>TypeError\<close> is
  the unpacking or indexing of \<^verbatim>\<open>None\<close> after a \<^verbatim>\<open>fetchone()\<close> that found no
  row, \<open>KeyError\<close> a dictionary lookup of a missing key and \<open>IndexError\<close> a list
  index out of range.
\<close>

datatype error = AssertionError | TypeError | KeyError | IndexError

text \<open>
  The four buckets of the module docstring (\<^verbatim>\<open>NodeClassification\<close>).  The column
  \<^verbatim>\<open>node.classification\<close> holds one of them or SQL NULL.
\<close>

datatype NodeClassification = NULL | CHANNEL | EDGE_WITH_MUX | EDGES_TO_CHANNEL

section \<open>Tables\<close>

text \<open>
  A table is the list of its rows, in rowid order; a nullable column is an
  \<open>option\<close>.  Only the columns the queries of the module read or write are kept.
\<close>

record site_type_row =
  st_pkey :: nat
  st_name :: string

record site_pin_row =
  sp_pkey :: nat
  sp_name :: string
  sp_site_type_pkey :: nat

record wire_in_tile_row =
  wit_pkey :: nat
  wit_name :: string
  wit_tile_type_pkey :: nat
  wit_site_pkey :: "nat option"
  wit_site_pin_pkey :: "nat option"

record pip_in_tile_row =
  pip_pkey :: nat
  pip_tile_type_pkey :: nat
  src_wire_in_tile_pkey :: nat
  dest_wire_in_tile_pkey :: nat
  is_directional :: bool
  is_pseudo :: bool

record phy_tile_row =
  pt_pkey :: nat
  pt_name :: string
  pt_tile_type_pkey :: nat

record tile_row =
  tile_pkey :: nat
  grid_x :: int
  grid_y :: int

record wire_row =
  wire_pkey :: nat
  wire_node_pkey :: "nat option"
  wire_phy_tile_pkey :: nat
  wire_tile_pkey :: "nat option"
  wire_wire_in_tile_pkey :: nat
  wire_graph_node_pkey :: "nat option"

record node_row =
  node_pkey :: nat
  number_pips :: "int option"
  track_pkey :: "nat option"
  site_wire_pkey :: "nat option"
  classification :: "NodeClassification option"

record edge_with_mux_row =
  ewm_src_wire_pkey :: nat
  ewm_dest_wire_pkey :: nat
  ewm_pip_in_tile_pkey :: nat

record database =
  site_type :: "site_type_row list"
  site_pin :: "site_pin_row list"
  wire_in_tile :: "wire_in_tile_row list"
  pip_in_tile :: "pip_in_tile_row list"
  phy_tile :: "phy_tile_row list"
  tile :: "tile_row list"
  wire :: "wire_row list"
  node :: "node_row list"
  edge_with_mux :: "edge_with_mux_row list"

definition empty_database :: database where
  "empty_database =
     \<lparr>site_type = [], site_pin = [], wire_in_tile = [], pip_in_tile = [],
      phy_tile = [], tile = [], wire = [], node = [], edge_with_mux = []\<rparr>"

subsection \<open>SQL helpers\<close>

text \<open>
  \<^verbatim>\<open>GROUP BY key\<close> with \<^verbatim>\<open>count(col)\<close> over a non-null column: one output row
  per distinct key, with the number of input rows of that key.
\<close>

definition group_count :: "('a \<Rightarrow> 'k) \<Rightarrow> 'a list \<Rightarrow> ('k \<times> nat) list" where
  "group_count key rows =
     map (\<lambda>k. (k, length (filter (\<lambda>r. key r = k) rows))) (remdups (map key rows))"

text \<open>The aggregate \<^verbatim>\<open>max(col)\<close>: SQL NULL over no rows.\<close>

definition sql_max :: "nat list \<Rightarrow> nat option" where
  "sql_max xs = (case xs of [] \<Rightarrow> None | x # ys \<Rightarrow> Some (fold max ys x))"

text \<open>A scalar subquery: the first row of the result, SQL NULL when there is none.\<close>

definition first_row :: "'a list \<Rightarrow> 'a option" where
  "first_row xs = (case xs of [] \<Rightarrow> None | x # _ \<Rightarrow> Some x)"

section \<open>Node Annotator: \<^verbatim>\<open>count_sites_and_pips_on_nodes\<close>\<close>

text \<open>
  The join of both site queries:
  \<^verbatim>\<open>wire_in_tile INNER JOIN wire ON wire.wire_in_tile_pkey = wire_in_tile.pkey
  WHERE wire_in_tile.site_pin_pkey IS NOT NULL\<close>.
\<close>

definition site_wires :: "database \<Rightarrow> (wire_in_tile_row \<times> wire_row) list" where
  "site_wires db =
     [(wt, w). wt \<leftarrow> wire_in_tile db, w \<leftarrow> wire db,
        wire_wire_in_tile_pkey w = wit_pkey wt, wit_site_pin_pkey wt \<noteq> None]"

text \<open>\<^verbatim>\<open>node_sites(node_pkey, number_site_pins)\<close>: the join grouped by \<^verbatim>\<open>wire.node_pkey\<close>.\<close>

definition node_sites :: "database \<Rightarrow> (nat option \<times> nat) list" where
  "node_sites db = group_count (\<lambda>(wt, w). wire_node_pkey w) (site_wires db)"

text \<open>
  The scalar subquery of the first \<^verbatim>\<open>UPDATE node\<close>:
  \<^verbatim>\<open>SELECT site_wires.wire_pkey FROM site_wires WHERE site_wires.node_pkey = node.pkey\<close>.
\<close>

definition site_wire_of :: "database \<Rightarrow> nat \<Rightarrow> nat option" where
  "site_wire_of db n =
     first_row (map (\<lambda>(wt, w). wire_pkey w)
       (filter (\<lambda>(wt, w). wire_node_pkey w = Some n) (site_wires db)))"

text \<open>
  The \<^verbatim>\<open>WHERE\<close> clause shared by the PIP count and by the disambiguation query of
  the classifier: a directional, non-pseudo PIP one of whose ends is the wire.
\<close>

definition pip_on_wire :: "pip_in_tile_row \<Rightarrow> nat \<Rightarrow> bool" where
  "pip_on_wire p wt \<longleftrightarrow>
     is_directional p \<and> \<not> is_pseudo p \<and>
     (src_wire_in_tile_pkey p = wt \<or> dest_wire_in_tile_pkey p = wt)"

text \<open>\<^verbatim>\<open>node_pip_count(node_pkey, number_pips)\<close>: \<^verbatim>\<open>pip_in_tile INNER JOIN wire\<close>, grouped.\<close>

definition pip_wires :: "database \<Rightarrow> (pip_in_tile_row \<times> wire_row) list" where
  "pip_wires db =
     [(p, w). p \<leftarrow> pip_in_tile db, w \<leftarrow> wire db,
        pip_on_wire p (wire_wire_in_tile_pkey w)]"

definition node_pip_count :: "database \<Rightarrow> (nat option \<times> nat) list" where
  "node_pip_count db = group_count (\<lambda>(p, w). wire_node_pkey w) (pip_wires db)"

text \<open>
  The last \<^verbatim>\<open>UPDATE node SET number_pips = (SELECT ...) WHERE pkey IN (SELECT node_pkey
  FROM node_pip_count)\<close>, on one row.
\<close>

definition set_number_pips :: "(nat option \<times> nat) list \<Rightarrow> node_row \<Rightarrow> node_row" where
  "set_number_pips npc r =
     (if Some (node_pkey r) \<in> set (map fst npc)
      then r\<lparr>number_pips :=
             map_option int (first_row (map snd (filter (\<lambda>(k, c). k = Some (node_pkey r)) npc)))\<rparr>
      else r)"

definition count_sites_and_pips_on_nodes :: "database \<Rightarrow> error + database" where
  "count_sites_and_pips_on_nodes db =
     (if sql_max (map snd (node_sites db)) \<noteq> Some 1 then Inl AssertionError
      else
        let db1 = db\<lparr>node := map (\<lambda>r. r\<lparr>site_wire_pkey := site_wire_of db (node_pkey r)\<rparr>) (node db)\<rparr>;
            npc = node_pip_count db1
        in Inr (db1\<lparr>node := map (set_number_pips npc) (node db1)\<rparr>))"

text \<open>A wire row carries a site pin when its wire type is bound to one.\<close>

definition has_site_pin :: "database \<Rightarrow> wire_row \<Rightarrow> bool" where
  "has_site_pin db w \<longleftrightarrow>
     (\<exists>wt \<in> set (wire_in_tile db). wit_pkey wt = wire_wire_in_tile_pkey w \<and> wit_site_pin_pkey wt \<noteq> None)"

section \<open>Node Classifier: \<^verbatim>\<open>classify_nodes\<close>\<close>

text \<open>
  \<^verbatim>\<open>UPDATE node SET classification = ? WHERE cond\<close>.  A comparison with SQL NULL is
  not true, so a row whose \<^verbatim>\<open>number_pips\<close> is NULL matches none of the clauses.
\<close>

definition pips_where :: "(int \<Rightarrow> bool) \<Rightarrow> node_row \<Rightarrow> bool" where
  "pips_where P r = (case number_pips r of None \<Rightarrow> False | Some k \<Rightarrow> P k)"

definition update_classification ::
    "NodeClassification \<Rightarrow> (node_row \<Rightarrow> bool) \<Rightarrow> database \<Rightarrow> database" where
  "update_classification c cond db =
     db\<lparr>node := map (\<lambda>r. if cond r then r\<lparr>classification := Some c\<rparr> else r) (node db)\<rparr>"

text \<open>The three unconditional updates at the head of \<^verbatim>\<open>classify_nodes\<close>.\<close>

definition where_null :: "node_row \<Rightarrow> bool" where
  "where_null r \<longleftrightarrow>
     (site_wire_pkey r = None \<and> pips_where (\<lambda>k. k \<le> 1) r) \<or>
     (site_wire_pkey r \<noteq> None \<and> pips_where (\<lambda>k. k = 0) r)"

definition where_channel :: "node_row \<Rightarrow> bool" where
  "where_channel r \<longleftrightarrow> pips_where (\<lambda>k. k > 1) r \<and> site_wire_pkey r = None"

definition where_edges_to_channel :: "node_row \<Rightarrow> bool" where
  "where_edges_to_channel r \<longleftrightarrow> pips_where (\<lambda>k. k > 1) r \<and> site_wire_pkey r \<noteq> None"

definition classify_unambiguous :: "database \<Rightarrow> database" where
  "classify_unambiguous db =
     update_classification EDGES_TO_CHANNEL where_edges_to_channel
       (update_classification CHANNEL where_channel
         (update_classification NULL where_null db))"

text \<open>
  The rows the loop visits:
  \<^verbatim>\<open>SELECT pkey, site_wire_pkey FROM node WHERE number_pips == 1 AND site_wire_pkey IS NOT NULL\<close>.
\<close>

definition ambiguous_nodes :: "database \<Rightarrow> (nat \<times> nat) list" where
  "ambiguous_nodes db =
     List.map_filter
       (\<lambda>r. case site_wire_pkey r of
               None \<Rightarrow> None
             | Some sw \<Rightarrow> if number_pips r = Some 1 then Some (node_pkey r, sw) else None)
       (node db)"

text \<open>
  The directional, non-pseudo PIPs with one end on a wire-in-tile key.  SQL leaves the
  order of the rows open; this is the order SQLite produces with the indices the source
  creates (\<^verbatim>\<open>src_pip_index\<close>, \<^verbatim>\<open>dest_pip_index\<close>), which answers the
  \<^verbatim>\<open>OR\<close> by two index searches: first the PIPs that have the wire as their source, then
  those that have it as their destination only.
\<close>

definition wire_pips :: "database \<Rightarrow> nat \<Rightarrow> pip_in_tile_row list" where
  "wire_pips db wt =
     filter (\<lambda>p. is_directional p \<and> \<not> is_pseudo p \<and> src_wire_in_tile_pkey p = wt)
       (pip_in_tile db) @
     filter (\<lambda>p. is_directional p \<and> \<not> is_pseudo p \<and> src_wire_in_tile_pkey p \<noteq> wt
                 \<and> dest_wire_in_tile_pkey p = wt)
       (pip_in_tile db)"

text \<open>
  The disambiguation query without its \<^verbatim>\<open>LIMIT\<close>: the wires of the node
  (\<^verbatim>\<open>wire_in_node\<close>, searched through \<^verbatim>\<open>wire_node_index\<close>) outermost, each joined
  with the PIPs on it.  Only the first row is ever read; where exactly one row matches the
  order plays no role.
\<close>

definition node_pips :: "database \<Rightarrow> nat \<Rightarrow> (pip_in_tile_row \<times> wire_row) list" where
  "node_pips db n =
     [(p, w). w \<leftarrow> filter (\<lambda>w. wire_node_pkey w = Some n) (wire db),
        p \<leftarrow> wire_pips db (wire_wire_in_tile_pkey w)]"

text \<open>
  The query ends in \<^verbatim>\<open>LIMIT 1\<close>.  The first \<^verbatim>\<open>fetchone()\<close> is unpacked into six
  names (a \<open>TypeError\<close> on no row), \<^verbatim>\<open>assert c.fetchone() is None, node\<close> follows, then
  the assertion that the wire is one end of the PIP.
\<close>

definition classify_nodes_pip :: "database \<Rightarrow> nat \<Rightarrow> error + (pip_in_tile_row \<times> wire_row)" where
  "classify_nodes_pip db n =
     (case take 1 (node_pips db n) of
        [] \<Rightarrow> Inl TypeError
      | (p, w) # rest \<Rightarrow>
          if rest \<noteq> [] then Inl AssertionError
          else if wire_wire_in_tile_pkey w = src_wire_in_tile_pkey p
                  \<or> wire_wire_in_tile_pkey w = dest_wire_in_tile_pkey p
          then Inr (p, w)
          else Inl AssertionError)"

text \<open>What one iteration of the loop has read when it reaches its three-way branch.\<close>

record traversal =
  t_pip_pkey :: nat
  t_src_wire_in_tile_pkey :: nat
  t_dest_wire_in_tile_pkey :: nat
  t_wire_in_tile_pkey :: nat
  t_phy_tile_pkey :: nat
  t_other_wire :: nat
  t_other_node_pkey :: nat
  t_other_site_wire_pkey :: "nat option"
  t_other_number_pips :: "int option"

text \<open>
  \<^verbatim>\<open>SELECT node_pkey FROM wire WHERE wire_in_tile_pkey = ? AND phy_tile_pkey = ?\<close>, with
  its unpacking and two assertions, then
  \<^verbatim>\<open>SELECT site_wire_pkey, number_pips FROM node WHERE pkey = ?\<close> with its two.
\<close>

definition classify_nodes_neighbor :: "database \<Rightarrow> nat \<Rightarrow> error + traversal" where
  "classify_nodes_neighbor db n =
     (case classify_nodes_pip db n of
        Inl e \<Rightarrow> Inl e
      | Inr (p, w) \<Rightarrow>
          let other_wire =
                (if src_wire_in_tile_pkey p = wire_wire_in_tile_pkey w
                 then dest_wire_in_tile_pkey p else src_wire_in_tile_pkey p)
          in
          (case map wire_node_pkey
                  (filter (\<lambda>w'. wire_wire_in_tile_pkey w' = other_wire
                               \<and> wire_phy_tile_pkey w' = wire_phy_tile_pkey w) (wire db)) of
             [] \<Rightarrow> Inl TypeError
           | other # rest \<Rightarrow>
               if rest \<noteq> [] then Inl AssertionError
               else
                 (case other of
                    None \<Rightarrow> Inl AssertionError
                  | Some other_node \<Rightarrow>
                      (case filter (\<lambda>r. node_pkey r = other_node) (node db) of
                         [] \<Rightarrow> Inl AssertionError
                       | r # rest' \<Rightarrow>
                           if rest' \<noteq> [] then Inl AssertionError
                           else Inr \<lparr>t_pip_pkey = pip_pkey p,
                                    t_src_wire_in_tile_pkey = src_wire_in_tile_pkey p,
                                    t_dest_wire_in_tile_pkey = dest_wire_in_tile_pkey p,
                                    t_wire_in_tile_pkey = wire_wire_in_tile_pkey w,
                                    t_phy_tile_pkey = wire_phy_tile_pkey w,
                                    t_other_wire = other_wire,
                                    t_other_node_pkey = other_node,
                                    t_other_site_wire_pkey = site_wire_pkey r,
                                    t_other_number_pips = number_pips r\<rparr>))))"

text \<open>The three Python lists the loop appends to.\<close>

record classify_acc =
  null_nodes :: "nat list"
  edges_to_channel :: "nat list"
  edge_with_mux_acc :: "((nat \<times> nat) \<times> nat \<times> nat \<times> nat) list"

definition classify_nodes_branch :: "nat \<Rightarrow> nat \<Rightarrow> traversal \<Rightarrow> classify_acc \<Rightarrow> classify_acc" where
  "classify_nodes_branch n site_wire t acc =
     (case t_other_site_wire_pkey t of
        Some other_site_wire \<Rightarrow>
          if t_other_number_pips t = Some 1 then
            (let (src_wire, dest_wire) =
                   (if t_src_wire_in_tile_pkey t = t_wire_in_tile_pkey t
                    then (site_wire, other_site_wire) else (other_site_wire, site_wire))
             in acc\<lparr>edge_with_mux_acc := edge_with_mux_acc acc @
                      [((n, t_other_node_pkey t), src_wire, dest_wire, t_pip_pkey t)]\<rparr>)
          else acc\<lparr>edges_to_channel := edges_to_channel acc @ [n]\<rparr>
      | None \<Rightarrow>
          if t_other_number_pips t = Some 1
          then acc\<lparr>null_nodes := null_nodes acc @ [n, t_other_node_pkey t]\<rparr>
          else acc\<lparr>edges_to_channel := edges_to_channel acc @ [n]\<rparr>)"

fun classify_nodes_loop :: "database \<Rightarrow> (nat \<times> nat) list \<Rightarrow> classify_acc \<Rightarrow> error + classify_acc" where
  "classify_nodes_loop db [] acc = Inr acc"
| "classify_nodes_loop db ((n, site_wire) # rest) acc =
     (case classify_nodes_neighbor db n of
        Inl e \<Rightarrow> Inl e
      | Inr t \<Rightarrow> classify_nodes_loop db rest (classify_nodes_branch n site_wire t acc))"

text \<open>The three loops of updates that follow, in the order of the source.\<close>

definition apply_edge_with_mux :: "((nat \<times> nat) \<times> nat \<times> nat \<times> nat) \<Rightarrow> database \<Rightarrow> database" where
  "apply_edge_with_mux e db =
     (case e of ((n0, n1), src_wire, dest_wire, pip) \<Rightarrow>
        (update_classification EDGE_WITH_MUX (\<lambda>r. node_pkey r = n0 \<or> node_pkey r = n1) db)
          \<lparr>edge_with_mux := edge_with_mux db @
             [\<lparr>ewm_src_wire_pkey = src_wire, ewm_dest_wire_pkey = dest_wire,
               ewm_pip_in_tile_pkey = pip\<rparr>]\<rparr>)"

definition apply_classify_acc :: "classify_acc \<Rightarrow> database \<Rightarrow> database" where
  "apply_classify_acc acc db =
     fold (\<lambda>n. update_classification NULL (\<lambda>r. node_pkey r = n)) (null_nodes acc)
       (fold (\<lambda>n. update_classification EDGES_TO_CHANNEL (\<lambda>r. node_pkey r = n)) (edges_to_channel acc)
         (fold apply_edge_with_mux (edge_with_mux_acc acc) db))"

definition classify_nodes :: "database \<Rightarrow> error + database" where
  "classify_nodes db =
     (let db1 = classify_unambiguous db in
      case classify_nodes_loop db1 (ambiguous_nodes db1)
             \<lparr>null_nodes = [], edges_to_channel = [], edge_with_mux_acc = []\<rparr> of
        Inl e \<Rightarrow> Inl e
      | Inr acc \<Rightarrow> Inr (apply_classify_acc acc db1))"


subsection \<open>What the loop and the updates compute\<close>

text \<open>
  The contribution of one iteration to each of the three lists, and the classification a
  row ends with once the three update loops have run in the order of the source: the
  \<open>NULL\<close> updates are last and win, the \<open>EDGES_TO_CHANNEL\<close> updates come before them, the
  \<open>EDGE_WITH_MUX\<close> updates first.  The lemmas below show that \<open>classify_nodes\<close> computes
  exactly these.
\<close>

definition null_of :: "nat \<Rightarrow> traversal \<Rightarrow> nat list" where
  "null_of n t =
     (if t_other_site_wire_pkey t = None \<and> t_other_number_pips t = Some 1
      then [n, t_other_node_pkey t] else [])"

definition edge_with_mux_of :: "nat \<Rightarrow> nat \<Rightarrow> traversal \<Rightarrow> ((nat \<times> nat) \<times> nat \<times> nat \<times> nat) list" where
  "edge_with_mux_of n site_wire t =
     (case t_other_site_wire_pkey t of
        None \<Rightarrow> []
      | Some other_site_wire \<Rightarrow>
          if t_other_number_pips t = Some 1
          then [((n, t_other_node_pkey t),
                 (if t_src_wire_in_tile_pkey t = t_wire_in_tile_pkey t then site_wire else other_site_wire),
                 (if t_src_wire_in_tile_pkey t = t_wire_in_tile_pkey t then other_site_wire else site_wire),
                 t_pip_pkey t)]
          else [])"

definition edges_to_channel_of :: "nat \<Rightarrow> traversal \<Rightarrow> nat list" where
  "edges_to_channel_of n t = (if t_other_number_pips t = Some 1 then [] else [n])"

definition edge_with_mux_nodes :: "classify_acc \<Rightarrow> nat set" where
  "edge_with_mux_nodes acc =
     (\<Union>e \<in> set (edge_with_mux_acc acc). {fst (fst e), snd (fst e)})"

definition final_classification :: "classify_acc \<Rightarrow> node_row \<Rightarrow> NodeClassification option" where
  "final_classification acc r =
     (if node_pkey r \<in> set (null_nodes acc) then Some NULL
      else if node_pkey r \<in> set (edges_to_channel acc) then Some EDGES_TO_CHANNEL
      else if node_pkey r \<in> edge_with_mux_nodes acc then Some EDGE_WITH_MUX
      else classification r)"

definition edge_row :: "((nat \<times> nat) \<times> nat \<times> nat \<times> nat) \<Rightarrow> edge_with_mux_row" where
  "edge_row e =
     (case e of (nodes, src_wire, dest_wire, pip) \<Rightarrow>
        \<lparr>ewm_src_wire_pkey = src_wire, ewm_dest_wire_pkey = dest_wire, ewm_pip_in_tile_pkey = pip\<rparr>)"

text \<open>The row of \<^verbatim>\<open>SELECT ... FROM node WHERE number_pips == 1 AND site_wire_pkey IS NOT NULL\<close>.\<close>

definition ambiguous :: "node_row \<Rightarrow> bool" where
  "ambiguous r \<longleftrightarrow> number_pips r = Some 1 \<and> site_wire_pkey r \<noteq> None"

text \<open>One row after the three unconditional updates.\<close>

definition initial_row :: "node_row \<Rightarrow> node_row" where
  "initial_row r =
     (if where_edges_to_channel r then r\<lparr>classification := Some EDGES_TO_CHANNEL\<rparr>
      else if where_channel r then r\<lparr>classification := Some CHANNEL\<rparr>
      else if where_null r then r\<lparr>classification := Some NULL\<rparr>
      else r)"


text \<open>The three lists before the loop.\<close>

definition empty_acc :: classify_acc where
  "empty_acc = \<lparr>null_nodes = [], edges_to_channel = [], edge_with_mux_acc = []\<rparr>"


text \<open>
  The rows the loop adds to \<^verbatim>\<open>edge_with_mux\<close>: one for each visited node whose neighbour
  has a site-pin wire and PIP count 1, in the order of the visits.
\<close>

definition new_edge_with_mux_rows :: "database \<Rightarrow> edge_with_mux_row list" where
  "new_edge_with_mux_rows db =
     concat (map (\<lambda>(n, sw). case classify_nodes_neighbor db n of
                               Inl e \<Rightarrow> []
                             | Inr t \<Rightarrow> map edge_row (edge_with_mux_of n sw t))
                 (ambiguous_nodes db))"

text \<open>
  The wires the traversal finds on the far side of PIP \<open>p\<close> from wire \<open>w\<close>:
  \<^verbatim>\<open>SELECT node_pkey FROM wire WHERE wire_in_tile_pkey = ? AND phy_tile_pkey = ?\<close>.
\<close>

definition other_wires :: "database \<Rightarrow> pip_in_tile_row \<Rightarrow> wire_row \<Rightarrow> wire_row list" where
  "other_wires db p w =
     filter (\<lambda>w'. wire_wire_in_tile_pkey w' =
                     (if src_wire_in_tile_pkey p = wire_wire_in_tile_pkey w
                      then dest_wire_in_tile_pkey p else src_wire_in_tile_pkey p)
                 \<and> wire_phy_tile_pkey w' = wire_phy_tile_pkey w) (wire db)"

text \<open>
  The traversal from node \<open>n\<close> finds exactly one matching PIP and exactly one neighbour
  node: one row of the join, one wire on the far side, owned by a node that has exactly
  one row.
\<close>

definition traversal_unique :: "database \<Rightarrow> nat \<Rightarrow> bool" where
  "traversal_unique db n =
     (case node_pips db n of
        [] \<Rightarrow> False
      | (p, w) # rest \<Rightarrow>
          rest = [] \<and>
          (case other_wires db p w of
             [] \<Rightarrow> False
           | w' # rest' \<Rightarrow>
               rest' = [] \<and>
               (case wire_node_pkey w' of
                  None \<Rightarrow> False
                | Some m \<Rightarrow> length (filter (\<lambda>r. node_pkey r = m) (node db)) = 1)))"

section \<open>Node Former: \<^verbatim>\<open>import_nodes\<close>\<close>

text \<open>
  The architecture database and the grid are outside the module.  The model takes what
  \<open>import_nodes\<close> reads from them as arguments: \<open>grid\<close>, the tiles of \<^verbatim>\<open>grid.tiles()\<close>
  each with the name of its tile type; \<open>get_wires\<close>, the wire names of a tile type; and
  the list of connections, each a pair of (tile, wire) endpoints.  The column defaults of
  the tables \<^verbatim>\<open>wire\<close> and \<^verbatim>\<open>node\<close> are declared by \<^verbatim>\<open>create_tables\<close>, which is not part of
  the module either: an \<^verbatim>\<open>INSERT\<close> that names only some columns takes the others from a
  row of defaults, given as an argument.
\<close>

type_synonym tile_wire = "string \<times> string"
type_synonym connection = "tile_wire \<times> tile_wire"

subsection \<open>Python dictionaries and sets\<close>

text \<open>
  A dictionary is the list of its items in insertion order.  A lookup of a missing key
  raises \<open>KeyError\<close>; an assignment replaces the value of a present key in place and
  appends a missing one.
\<close>

definition dict_get :: "('k \<times> 'v) list \<Rightarrow> 'k \<Rightarrow> error + 'v" where
  "dict_get d k = (case map_of d k of None \<Rightarrow> Inl KeyError | Some v \<Rightarrow> Inr v)"

definition dict_set :: "('k \<times> 'v) list \<Rightarrow> 'k \<Rightarrow> 'v \<Rightarrow> ('k \<times> 'v) list" where
  "dict_set d k v =
     (if k \<in> fst ` set d then map (\<lambda>(k', v'). if k' = k then (k', v) else (k', v')) d
      else d @ [(k, v)])"

text \<open>
  The node sets are mutable objects shared between the entries of \<^verbatim>\<open>wires\<close>: the loop
  compares them by identity (\<^verbatim>\<open>is not\<close>) and merges in place (\<^verbatim>\<open>|=\<close>).  The model keeps
  a store from addresses to set contents; an entry of \<^verbatim>\<open>wires\<close> holds \<^verbatim>\<open>None\<close> or the
  address of its set.  A set is the list of its elements without repetition, iterated in
  list order (the order in which Python iterates a set is unspecified, and no result
  below depends on it).
\<close>

record py_state =
  heap :: "nat \<Rightarrow> nat list"
  next_addr :: nat
  wires :: "(nat \<times> nat option) list"

definition new_set :: "py_state \<Rightarrow> nat list \<Rightarrow> py_state \<times> nat" where
  "new_set st xs =
     (st\<lparr>heap := (heap st)(next_addr st := xs), next_addr := Suc (next_addr st)\<rparr>, next_addr st)"

text \<open>\<^verbatim>\<open>a |= b\<close> on the contents.\<close>

definition set_ior :: "nat list \<Rightarrow> nat list \<Rightarrow> nat list" where
  "set_ior a b = a @ filter (\<lambda>x. x \<notin> set a) b"

text \<open>\<^verbatim>\<open>node = wires[k]; if node is None: node = set((k, ))\<close>.\<close>

definition node_or_new :: "py_state \<Rightarrow> nat \<Rightarrow> nat option \<Rightarrow> py_state \<times> nat" where
  "node_or_new st k ref = (case ref of None \<Rightarrow> new_set st [k] | Some a \<Rightarrow> (st, a))"

subsection \<open>Enumerating the wires\<close>

text \<open>The rowid SQLite gives a new row of a table with an integer primary key.\<close>

definition next_pkey :: "nat list \<Rightarrow> nat" where
  "next_pkey ks = Suc (fold max ks 0)"

text \<open>The body of the inner loop, for one wire name of one tile.\<close>

definition import_wire ::
    "wire_row \<Rightarrow> string \<Rightarrow> nat \<Rightarrow> nat \<Rightarrow> string \<Rightarrow>
     database \<times> (tile_wire \<times> nat) list \<times> (nat \<times> nat option) list \<Rightarrow>
     error + database \<times> (tile_wire \<times> nat) list \<times> (nat \<times> nat option) list" where
  "import_wire dflt tname phy_tile_pkey tile_type_pkey wire_name s =
     (case s of (db, tile_wire_map, ws) \<Rightarrow>
        (case first_row (map wit_pkey
                (filter (\<lambda>r. wit_name r = wire_name \<and> wit_tile_type_pkey r = tile_type_pkey)
                   (wire_in_tile db))) of
           None \<Rightarrow> Inl TypeError
         | Some wire_in_tile_pkey \<Rightarrow>
             let new_pkey = next_pkey (map wire_pkey (wire db));
                 db' = db\<lparr>wire := wire db @
                          [dflt\<lparr>wire_pkey := new_pkey, wire_phy_tile_pkey := phy_tile_pkey,
                                wire_wire_in_tile_pkey := wire_in_tile_pkey\<rparr>]\<rparr>
             in if (tname, wire_name) \<in> fst ` set tile_wire_map then Inl AssertionError
                else Inr (db', dict_set tile_wire_map (tname, wire_name) new_pkey,
                          dict_set ws new_pkey None)))"

fun import_tile_wires ::
    "wire_row \<Rightarrow> string \<Rightarrow> nat \<Rightarrow> nat \<Rightarrow> string list \<Rightarrow>
     database \<times> (tile_wire \<times> nat) list \<times> (nat \<times> nat option) list \<Rightarrow>
     error + database \<times> (tile_wire \<times> nat) list \<times> (nat \<times> nat option) list" where
  "import_tile_wires dflt tname pt tt [] s = Inr s"
| "import_tile_wires dflt tname pt tt (w # ws) s =
     (case import_wire dflt tname pt tt w s of
        Inl e \<Rightarrow> Inl e
      | Inr s' \<Rightarrow> import_tile_wires dflt tname pt tt ws s')"

fun import_wires ::
    "(string \<Rightarrow> string list) \<Rightarrow> wire_row \<Rightarrow> (string \<times> string) list \<Rightarrow>
     database \<times> (tile_wire \<times> nat) list \<times> (nat \<times> nat option) list \<Rightarrow>
     error + database \<times> (tile_wire \<times> nat) list \<times> (nat \<times> nat option) list" where
  "import_wires get_wires dflt [] s = Inr s"
| "import_wires get_wires dflt ((tname, tile_type) # tiles) s =
     (case first_row (filter (\<lambda>r. pt_name r = tname) (phy_tile (fst s))) of
        None \<Rightarrow> Inl TypeError
      | Some r \<Rightarrow>
          (case import_tile_wires dflt tname (pt_pkey r) (pt_tile_type_pkey r) (get_wires tile_type) s of
             Inl e \<Rightarrow> Inl e
           | Inr s' \<Rightarrow> import_wires get_wires dflt tiles s'))"

subsection \<open>Merging along the connections\<close>

definition connect :: "(tile_wire \<times> nat) list \<Rightarrow> connection \<Rightarrow> py_state \<Rightarrow> error + py_state" where
  "connect tile_wire_map c st =
     (case dict_get tile_wire_map (fst c) of Inl e \<Rightarrow> Inl e | Inr a_pkey \<Rightarrow>
      case dict_get tile_wire_map (snd c) of Inl e \<Rightarrow> Inl e | Inr b_pkey \<Rightarrow>
      case dict_get (wires st) a_pkey of Inl e \<Rightarrow> Inl e | Inr a_ref \<Rightarrow>
      case dict_get (wires st) b_pkey of Inl e \<Rightarrow> Inl e | Inr b_ref \<Rightarrow>
        (case node_or_new st a_pkey a_ref of (st1, a_node) \<Rightarrow>
         case node_or_new st1 b_pkey b_ref of (st2, b_node) \<Rightarrow>
           if a_node \<noteq> b_node then
             let merged = set_ior (heap st2 a_node) (heap st2 b_node)
             in Inr (st2\<lparr>heap := (heap st2)(a_node := merged),
                         wires := fold (\<lambda>w d. dict_set d w (Some a_node)) merged (wires st2)\<rparr>)
           else Inr st2))"

fun connect_all :: "(tile_wire \<times> nat) list \<Rightarrow> connection list \<Rightarrow> py_state \<Rightarrow> error + py_state" where
  "connect_all tile_wire_map [] st = Inr st"
| "connect_all tile_wire_map (c # cs) st =
     (case connect tile_wire_map c st of
        Inl e \<Rightarrow> Inl e
      | Inr st' \<Rightarrow> connect_all tile_wire_map cs st')"

subsection \<open>Collecting the node sets\<close>

text \<open>
  \<^verbatim>\<open>nodes[id(node)] = node\<close> over \<^verbatim>\<open>wires.items()\<close>: the dictionary \<^verbatim>\<open>nodes\<close> is keyed by
  object identity, so it is the list of the addresses seen, each once, in the order of
  their first occurrence.
\<close>

fun collect_nodes :: "(nat \<times> nat option) list \<Rightarrow> py_state \<times> nat list \<Rightarrow> error + py_state \<times> nat list" where
  "collect_nodes [] s = Inr s"
| "collect_nodes ((k, ref) # items) s =
     (case node_or_new (fst s) k ref of (st', a) \<Rightarrow>
        if k \<notin> set (heap st' a) then Inl AssertionError
        else collect_nodes items (st', if a \<in> set (snd s) then snd s else snd s @ [a]))"

subsection \<open>Writing the nodes\<close>

text \<open>
  For one node set: \<^verbatim>\<open>INSERT INTO node(number_pips) VALUES (0)\<close>, then one
  \<^verbatim>\<open>UPDATE wire SET node_pkey = ? WHERE pkey = ?\<close> per member.
\<close>

definition insert_node :: "node_row \<Rightarrow> nat list \<Rightarrow> database \<times> nat set \<Rightarrow> database \<times> nat set" where
  "insert_node dflt members s =
     (case s of (db, wires_assigned) \<Rightarrow>
        let new_pkey = next_pkey (map node_pkey (node db));
            db1 = db\<lparr>node := node db @ [dflt\<lparr>node_pkey := new_pkey, number_pips := Some 0\<rparr>]\<rparr>
        in (fold (\<lambda>w db. db\<lparr>wire := map (\<lambda>r. if wire_pkey r = w
                                               then r\<lparr>wire_node_pkey := Some new_pkey\<rparr> else r)
                                       (wire db)\<rparr>)
                 members db1,
            wires_assigned \<union> set members))"

definition import_nodes ::
    "(string \<Rightarrow> string list) \<Rightarrow> (string \<times> string) list \<Rightarrow> connection list \<Rightarrow>
     wire_row \<Rightarrow> node_row \<Rightarrow> database \<Rightarrow> error + database" where
  "import_nodes get_wires grid connections wire_dflt node_dflt db =
     (case import_wires get_wires wire_dflt grid (db, [], []) of
        Inl e \<Rightarrow> Inl e
      | Inr (db1, tile_wire_map, ws) \<Rightarrow>
     (case connect_all tile_wire_map connections \<lparr>heap = (\<lambda>a. []), next_addr = 0, wires = ws\<rparr> of
        Inl e \<Rightarrow> Inl e
      | Inr st \<Rightarrow>
     (case collect_nodes (wires st) (st, []) of
        Inl e \<Rightarrow> Inl e
      | Inr (st', nodes) \<Rightarrow>
          (case fold (insert_node node_dflt) (map (heap st') nodes) (db1, {}) of
             (db2, wires_assigned) \<Rightarrow>
               if set (map fst (wires st)) = wires_assigned then Inr db2
               else Inl AssertionError))))"


section \<open>Constant network\<close>

subsection \<open>\<^verbatim>\<open>create_track\<close> and \<^verbatim>\<open>create_constant_tracks\<close>\<close>

text \<open>
  \<^verbatim>\<open>create_track(node, unique_pos)\<close> hands the position set to the track library
  (\<^verbatim>\<open>points.decompose_points_into_tracks\<close>, \<^verbatim>\<open>tracks.make_tracks\<close>,
  \<^verbatim>\<open>tracks.Tracks\<close>) and returns the node with what the library made of the set.  The
  library is not among the sources; it is the parameter \<open>make_tracks\<close>, and its result
  (tracks list, track connections, tracks model) is of any type.
\<close>

definition create_track :: "((int \<times> int) set \<Rightarrow> 'm) \<Rightarrow> nat \<Rightarrow> (int \<times> int) set \<Rightarrow> nat \<times> 'm" where
  "create_track make_tracks node_key unique_pos = (node_key, make_tracks unique_pos)"

text \<open>
  \<^verbatim>\<open>INSERT INTO node(classification) VALUES (?)\<close> with \<^verbatim>\<open>c.lastrowid\<close>.  The columns
  the statement does not name take the defaults of the schema, which \<^verbatim>\<open>create_tables\<close>
  of \<^verbatim>\<open>lib.connection_database\<close> declares and which is not among the sources: the
  row of defaults is the parameter \<open>dflt\<close>.
\<close>

definition insert_node_classification ::
    "node_row \<Rightarrow> NodeClassification \<Rightarrow> database \<Rightarrow> database \<times> nat" where
  "insert_node_classification dflt c db =
     (let new_pkey = next_pkey (map node_pkey (node db))
      in (db\<lparr>node := node db @ [dflt\<lparr>node_pkey := new_pkey, classification := Some c\<rparr>]\<rparr>,
          new_pkey))"

text \<open>
  The loop over \<^verbatim>\<open>SELECT grid_x, grid_y FROM tile\<close> fills the Python set
  \<^verbatim>\<open>unique_pos\<close>; the two inserts follow; both calls of \<^verbatim>\<open>create_track\<close> receive
  the same set object.
\<close>

definition create_constant_tracks ::
    "((int \<times> int) set \<Rightarrow> 'm) \<Rightarrow> node_row \<Rightarrow> database \<Rightarrow> database \<times> (nat \<times> 'm) \<times> (nat \<times> 'm)" where
  "create_constant_tracks make_tracks dflt db =
     (let unique_pos =
            fold (\<lambda>t unique_pos.
                    if grid_x t = 0 \<or> grid_y t = 0 then unique_pos
                    else insert (grid_x t, grid_y t) unique_pos)
                 (tile db) {};
          (db1, vcc_node) = insert_node_classification dflt CHANNEL db;
          (db2, gnd_node) = insert_node_classification dflt CHANNEL db1
      in (db2, create_track make_tracks vcc_node unique_pos,
               create_track make_tracks gnd_node unique_pos))"

subsection \<open>\<^verbatim>\<open>connect_hardpins_to_constant_network\<close>\<close>

text \<open>
  \<^verbatim>\<open>UPDATE node SET track_pkey = ? WHERE pkey IN (SELECT node_pkey FROM wire WHERE
  wire_in_tile_pkey = ?)\<close>.
\<close>

definition set_node_track :: "nat \<Rightarrow> nat \<Rightarrow> database \<Rightarrow> database" where
  "set_node_track tk wit db =
     db\<lparr>node :=
          map (\<lambda>r. if Some (node_pkey r)
                         \<in> set (map wire_node_pkey
                                  (filter (\<lambda>w. wire_wire_in_tile_pkey w = wit) (wire db)))
                    then r\<lparr>track_pkey := Some tk\<rparr> else r)
              (node db)\<rparr>"

text \<open>
  \<^verbatim>\<open>SELECT pkey FROM site_pin WHERE site_type_pkey = ? and name = ?\<close> with
  \<^verbatim>\<open>c.fetchone()[0]\<close> (a \<open>TypeError\<close> on no row), then
  \<^verbatim>\<open>SELECT pkey FROM wire_in_tile WHERE site_pin_pkey = ?\<close>: the wire-in-tile keys the
  loop that follows runs over.
\<close>

definition hardpin_wires :: "database \<Rightarrow> nat \<Rightarrow> string \<Rightarrow> error + nat list" where
  "hardpin_wires db site_type_key pin_name =
     (case filter (\<lambda>p. sp_site_type_pkey p = site_type_key \<and> sp_name p = pin_name) (site_pin db) of
        [] \<Rightarrow> Inl TypeError
      | p # rest \<Rightarrow>
          Inr (map wit_pkey
                 (filter (\<lambda>wt. wit_site_pin_pkey wt = Some (sp_pkey p)) (wire_in_tile db))))"

text \<open>
  The site type \<^verbatim>\<open>TIEOFF\<close> (\<^verbatim>\<open>assert len(results) == 1\<close>), the updates for
  \<^verbatim>\<open>HARD1\<close> with the VCC track, then the updates for \<^verbatim>\<open>HARD0\<close> with the GND track.
\<close>

definition connect_hardpins_to_constant_network :: "database \<Rightarrow> nat \<Rightarrow> nat \<Rightarrow> error + database" where
  "connect_hardpins_to_constant_network db vcc_track_pkey gnd_track_pkey =
     (case filter (\<lambda>s. st_name s = ''TIEOFF'') (site_type db) of
        [] \<Rightarrow> Inl AssertionError
      | s # more_types \<Rightarrow>
          if more_types \<noteq> [] then Inl AssertionError
          else
            (case hardpin_wires db (st_pkey s) ''HARD1'' of
               Inl e \<Rightarrow> Inl e
             | Inr vcc_wires \<Rightarrow>
                 let db1 = fold (set_node_track vcc_track_pkey) vcc_wires db
                 in (case hardpin_wires db1 (st_pkey s) ''HARD0'' of
                       Inl e \<Rightarrow> Inl e
                     | Inr gnd_wires \<Rightarrow> Inr (fold (set_node_track gnd_track_pkey) gnd_wires db1))))"

text \<open>
  A wire row is bound to the site pin \<open>pin_name\<close> of a \<^verbatim>\<open>TIEOFF\<close> site: its wire-in-tile
  row refers to a site pin of that name whose site type is named \<^verbatim>\<open>TIEOFF\<close>.
\<close>

definition tieoff_wire :: "database \<Rightarrow> string \<Rightarrow> wire_row \<Rightarrow> bool" where
  "tieoff_wire db pin_name w \<longleftrightarrow>
     (\<exists>wt \<in> set (wire_in_tile db). \<exists>p \<in> set (site_pin db). \<exists>s \<in> set (site_type db).
        wit_pkey wt = wire_wire_in_tile_pkey w \<and> wit_site_pin_pkey wt = Some (sp_pkey p) \<and>
        sp_name p = pin_name \<and> sp_site_type_pkey p = st_pkey s \<and> st_name s = ''TIEOFF'')"


subsection \<open>Invariants of the Node Former\<close>

text \<open>
  What holds of the database and the two dictionaries while the wires are enumerated:
  the wire table has one row per entry of \<^verbatim>\<open>wires\<close>, with the same keys in the same order
  and without repetition; \<^verbatim>\<open>tile_wire_map\<close> has one entry per row, whose values are these
  keys; and every entry of \<^verbatim>\<open>wires\<close> is still \<^verbatim>\<open>None\<close>.
\<close>

definition wires_enumerated ::
    "database \<times> (tile_wire \<times> nat) list \<times> (nat \<times> nat option) list \<Rightarrow> bool" where
  "wires_enumerated s \<longleftrightarrow>
     (case s of (db, tile_wire_map, ws) \<Rightarrow>
        map wire_pkey (wire db) = map fst ws \<and> distinct (map fst ws) \<and>
        map snd tile_wire_map = map fst ws \<and> distinct (map fst tile_wire_map) \<and>
        (\<forall>x \<in> set ws. snd x = None))"

text \<open>
  What holds of \<^verbatim>\<open>wires\<close> and the store while the connections are merged: the keys of
  \<^verbatim>\<open>wires\<close> are distinct, and an entry that refers to a set refers to an allocated set
  that contains the entry's key and all of whose members refer to that same set.
\<close>

definition heap_inv :: "py_state \<Rightarrow> bool" where
  "heap_inv st \<longleftrightarrow>
     distinct (map fst (wires st)) \<and>
     (\<forall>k a. (k, Some a) \<in> set (wires st) \<longrightarrow>
        a < next_addr st \<and> k \<in> set (heap st a) \<and> distinct (heap st a) \<and>
        (\<forall>k' \<in> set (heap st a). (k', Some a) \<in> set (wires st)))"

text \<open>A later state that has only allocated new sets.\<close>

definition allocated_only :: "py_state \<Rightarrow> py_state \<Rightarrow> bool" where
  "allocated_only st st' \<longleftrightarrow>
     wires st' = wires st \<and> next_addr st \<le> next_addr st' \<and>
     (\<forall>a < next_addr st. heap st' a = heap st a)"


text \<open>
  What holds while the node sets are collected, after the items \<open>done\<close> of \<^verbatim>\<open>wires\<close> have
  been visited, of the store and the addresses seen: only new sets were allocated; each
  address is listed once; an address allocated before the loop is the set of a visited
  entry; an address allocated by the loop holds the singleton of a visited entry that was
  \<^verbatim>\<open>None\<close>, and no two of them the same singleton; and every visited key is a member of
  a listed set.
\<close>

definition collected :: "py_state \<Rightarrow> (nat \<times> nat option) list \<Rightarrow> py_state \<times> nat list \<Rightarrow> bool" where
  "collected st visited s \<longleftrightarrow>
     (case s of (stc, ns) \<Rightarrow>
        allocated_only st stc \<and> distinct ns \<and>
        (\<forall>a \<in> set ns. a < next_addr stc) \<and>
        (\<forall>a \<in> set ns. a < next_addr st \<longrightarrow> (\<exists>k. (k, Some a) \<in> set visited)) \<and>
        (\<forall>a \<in> set ns. next_addr st \<le> a \<longrightarrow> (\<exists>k. (k, None) \<in> set visited \<and> heap stc a = [k])) \<and>
        (\<forall>a \<in> set ns. \<forall>b \<in> set ns. next_addr st \<le> a \<longrightarrow> next_addr st \<le> b \<longrightarrow>
             heap stc a = heap stc b \<longrightarrow> a = b) \<and>
        (\<forall>x \<in> set visited. \<exists>a \<in> set ns. fst x \<in> set (heap stc a)))"

text \<open>The sets of a list are pairwise disjoint.\<close>

fun disjoint_sets :: "nat list list \<Rightarrow> bool" where
  "disjoint_sets [] = True"
| "disjoint_sets (s # S) = ((\<forall>t \<in> set S. set s \<inter> set t = {}) \<and> disjoint_sets S)"

section \<open>Example fabrics\<close>

text \<open>Small databases on which the functions are evaluated.\<close>

definition mk_wire :: "nat \<Rightarrow> nat option \<Rightarrow> nat \<Rightarrow> nat \<Rightarrow> wire_row" where
  "mk_wire k n t wt =
     \<lparr>wire_pkey = k, wire_node_pkey = n, wire_phy_tile_pkey = t, wire_tile_pkey = None,
      wire_wire_in_tile_pkey = wt, wire_graph_node_pkey = None\<rparr>"

definition mk_wire_in_tile :: "nat \<Rightarrow> nat option \<Rightarrow> wire_in_tile_row" where
  "mk_wire_in_tile k sp =
     \<lparr>wit_pkey = k, wit_name = [], wit_tile_type_pkey = 1,
      wit_site_pkey = map_option (\<lambda>_. 1) sp, wit_site_pin_pkey = sp\<rparr>"

definition mk_pip :: "nat \<Rightarrow> nat \<Rightarrow> nat \<Rightarrow> pip_in_tile_row" where
  "mk_pip k s d =
     \<lparr>pip_pkey = k, pip_tile_type_pkey = 1, src_wire_in_tile_pkey = s,
      dest_wire_in_tile_pkey = d, is_directional = True, is_pseudo = False\<rparr>"

definition mk_node :: "nat \<Rightarrow> int option \<Rightarrow> nat option \<Rightarrow> NodeClassification option \<Rightarrow> node_row" where
  "mk_node k np sw c =
     \<lparr>node_pkey = k, number_pips = np, track_pkey = None, site_wire_pkey = sw,
      classification = c\<rparr>"

text \<open>One node with two site-pin wires.\<close>

definition ex_two_site_pins :: database where
  "ex_two_site_pins = empty_database
     \<lparr>wire_in_tile := [mk_wire_in_tile 1 (Some 1), mk_wire_in_tile 2 (Some 2)],
      wire := [mk_wire 1 (Some 1) 1 1, mk_wire 2 (Some 1) 1 2],
      node := [mk_node 1 (Some 0) None None]\<rparr>"

text \<open>
  One tile with a site-pin wire (node 1) and two routing wires (nodes 2 and 3); PIPs
  from wire 1 to wire 2 and from wire 3 to wire 2.
\<close>

definition ex_fabric :: database where
  "ex_fabric = empty_database
     \<lparr>wire_in_tile := [mk_wire_in_tile 1 (Some 1), mk_wire_in_tile 2 None, mk_wire_in_tile 3 None],
      pip_in_tile := [mk_pip 1 1 2, mk_pip 2 3 2],
      wire := [mk_wire 1 (Some 1) 1 1, mk_wire 2 (Some 2) 1 2, mk_wire 3 (Some 3) 1 3],
      node := [mk_node 1 (Some 0) None None, mk_node 2 (Some 0) None None,
               mk_node 3 (Some 0) None None]\<rparr>"

definition ex_fabric_annotated :: database where
  "ex_fabric_annotated = ex_fabric
     \<lparr>node := [mk_node 1 (Some 1) (Some 1) None, mk_node 2 (Some 2) None None,
               mk_node 3 (Some 1) None None]\<rparr>"

text \<open>A fabric with wires but no site pin at all.\<close>

definition ex_no_site_pins :: database where
  "ex_no_site_pins = empty_database
     \<lparr>wire_in_tile := [mk_wire_in_tile 1 None],
      wire := [mk_wire 1 (Some 1) 1 1],
      node := [mk_node 1 (Some 0) None None]\<rparr>"

text \<open>
  Six single-wire nodes in one tile, already annotated.  Wires 1, 4 and 5 carry site
  pins; the PIPs are 1\<rightarrow>2, 3\<rightarrow>2, 4\<rightarrow>2 and 4\<rightarrow>3; wire 6 is isolated.
\<close>

definition ex_nodes :: database where
  "ex_nodes = empty_database
     \<lparr>wire_in_tile := [mk_wire_in_tile 1 (Some 1), mk_wire_in_tile 2 None, mk_wire_in_tile 3 None,
                       mk_wire_in_tile 4 (Some 2), mk_wire_in_tile 5 (Some 3), mk_wire_in_tile 6 None],
      pip_in_tile := [mk_pip 1 1 2, mk_pip 2 3 2, mk_pip 3 4 2, mk_pip 4 4 3],
      wire := [mk_wire 1 (Some 1) 1 1, mk_wire 2 (Some 2) 1 2, mk_wire 3 (Some 3) 1 3,
               mk_wire 4 (Some 4) 1 4, mk_wire 5 (Some 5) 1 5, mk_wire 6 (Some 6) 1 6],
      node := [mk_node 1 (Some 1) (Some 1) None, mk_node 2 (Some 3) None None,
               mk_node 3 (Some 2) None None, mk_node 4 (Some 2) (Some 4) None,
               mk_node 5 (Some 0) (Some 5) None, mk_node 6 (Some 0) None None]\<rparr>"

definition ex_nodes_classified :: database where
  "ex_nodes_classified = ex_nodes
     \<lparr>node := [mk_node 1 (Some 1) (Some 1) (Some EDGES_TO_CHANNEL), mk_node 2 (Some 3) None (Some CHANNEL),
               mk_node 3 (Some 2) None (Some CHANNEL), mk_node 4 (Some 2) (Some 4) (Some EDGES_TO_CHANNEL),
               mk_node 5 (Some 0) (Some 5) (Some NULL), mk_node 6 (Some 0) None (Some NULL)]\<rparr>"

text \<open>
  Scenario C of the specification: two nodes, each with a site-pin wire and PIP count 1,
  joined by the one PIP 1\<rightarrow>2.
\<close>

definition ex_scenario_c :: database where
  "ex_scenario_c = empty_database
     \<lparr>wire_in_tile := [mk_wire_in_tile 1 (Some 1), mk_wire_in_tile 2 (Some 2)],
      pip_in_tile := [mk_pip 1 1 2],
      wire := [mk_wire 1 (Some 1) 1 1, mk_wire 2 (Some 2) 1 2],
      node := [mk_node 1 (Some 1) (Some 1) None, mk_node 2 (Some 1) (Some 2) None]\<rparr>"

definition ex_scenario_c_classified :: database where
  "ex_scenario_c_classified = ex_scenario_c
     \<lparr>node := [mk_node 1 (Some 1) (Some 1) (Some EDGE_WITH_MUX),
               mk_node 2 (Some 1) (Some 2) (Some EDGE_WITH_MUX)],
      edge_with_mux :=
        [\<lparr>ewm_src_wire_pkey = 1, ewm_dest_wire_pkey = 2, ewm_pip_in_tile_pkey = 1\<rparr>,
         \<lparr>ewm_src_wire_pkey = 1, ewm_dest_wire_pkey = 2, ewm_pip_in_tile_pkey = 1\<rparr>]\<rparr>"

text \<open>
  A node table that says node 1 has one PIP while two directional, non-pseudo PIPs
  (1\<rightarrow>2 and 1\<rightarrow>3) lie on its wire.
\<close>

definition ex_two_pips :: database where
  "ex_two_pips = empty_database
     \<lparr>wire_in_tile := [mk_wire_in_tile 1 (Some 1), mk_wire_in_tile 2 None, mk_wire_in_tile 3 None],
      pip_in_tile := [mk_pip 1 1 2, mk_pip 2 1 3],
      wire := [mk_wire 1 (Some 1) 1 1, mk_wire 2 (Some 2) 1 2, mk_wire 3 (Some 3) 1 3],
      node := [mk_node 1 (Some 1) (Some 1) None, mk_node 2 (Some 1) None None,
               mk_node 3 (Some 1) None None]\<rparr>"

definition ex_two_pips_classified :: database where
  "ex_two_pips_classified = ex_two_pips
     \<lparr>node := [mk_node 1 (Some 1) (Some 1) (Some NULL), mk_node 2 (Some 1) None (Some NULL),
               mk_node 3 (Some 1) None (Some NULL)]\<rparr>"

text \<open>A site-pin wire whose only PIP leads to a dead-end routing wire, before annotation.\<close>

definition ex_stub :: database where
  "ex_stub = empty_database
     \<lparr>wire_in_tile := [mk_wire_in_tile 1 (Some 1), mk_wire_in_tile 2 None],
      pip_in_tile := [mk_pip 1 1 2],
      wire := [mk_wire 1 (Some 1) 1 1, mk_wire 2 (Some 2) 1 2],
      node := [mk_node 1 (Some 0) None None, mk_node 2 (Some 0) None None]\<rparr>"

definition ex_stub_annotated :: database where
  "ex_stub_annotated = ex_stub
     \<lparr>node := [mk_node 1 (Some 1) (Some 1) None, mk_node 2 (Some 1) None None]\<rparr>"

definition ex_stub_classified :: database where
  "ex_stub_classified = ex_stub
     \<lparr>node := [mk_node 1 (Some 1) (Some 1) (Some NULL), mk_node 2 (Some 1) None (Some NULL)]\<rparr>"

text \<open>
  A site-pin wire whose only PIP leads to a wire-in-tile that has no wire in the catalog,
  before and after annotation.
\<close>

definition ex_dangling :: database where
  "ex_dangling = empty_database
     \<lparr>wire_in_tile := [mk_wire_in_tile 1 (Some 1), mk_wire_in_tile 2 None],
      pip_in_tile := [mk_pip 1 1 2],
      wire := [mk_wire 1 (Some 1) 1 1],
      node := [mk_node 1 (Some 0) None None]\<rparr>"

definition ex_dangling_annotated :: database where
  "ex_dangling_annotated = ex_dangling
     \<lparr>node := [mk_node 1 (Some 1) (Some 1) None]\<rparr>"

text \<open>What the two visits of scenario C read.\<close>

definition ex_scenario_c_visit_1 :: traversal where
  "ex_scenario_c_visit_1 =
     \<lparr>t_pip_pkey = 1, t_src_wire_in_tile_pkey = 1, t_dest_wire_in_tile_pkey = 2,
      t_wire_in_tile_pkey = 1, t_phy_tile_pkey = 1, t_other_wire = 2, t_other_node_pkey = 2,
      t_other_site_wire_pkey = Some 2, t_other_number_pips = Some 1\<rparr>"

definition ex_scenario_c_visit_2 :: traversal where
  "ex_scenario_c_visit_2 =
     \<lparr>t_pip_pkey = 1, t_src_wire_in_tile_pkey = 1, t_dest_wire_in_tile_pkey = 2,
      t_wire_in_tile_pkey = 2, t_phy_tile_pkey = 1, t_other_wire = 1, t_other_node_pkey = 1,
      t_other_site_wire_pkey = Some 1, t_other_number_pips = Some 1\<rparr>"

definition ex_stub_visit :: traversal where
  "ex_stub_visit =
     \<lparr>t_pip_pkey = 1, t_src_wire_in_tile_pkey = 1, t_dest_wire_in_tile_pkey = 2,
      t_wire_in_tile_pkey = 1, t_phy_tile_pkey = 1, t_other_wire = 2, t_other_node_pkey = 2,
      t_other_site_wire_pkey = None, t_other_number_pips = Some 1\<rparr>"

text \<open>
  Three tiles of one tile type with wires \<open>A\<close> and \<open>B\<close>; wire \<open>B\<close> of each tile is joined
  to wire \<open>A\<close> of the next.
\<close>

definition ex_grid_db :: database where
  "ex_grid_db = empty_database
     \<lparr>wire_in_tile :=
        [\<lparr>wit_pkey = 1, wit_name = ''A'', wit_tile_type_pkey = 1, wit_site_pkey = None,
          wit_site_pin_pkey = None\<rparr>,
         \<lparr>wit_pkey = 2, wit_name = ''B'', wit_tile_type_pkey = 1, wit_site_pkey = None,
          wit_site_pin_pkey = None\<rparr>],
      phy_tile :=
        [\<lparr>pt_pkey = 1, pt_name = ''T1'', pt_tile_type_pkey = 1\<rparr>,
         \<lparr>pt_pkey = 2, pt_name = ''T2'', pt_tile_type_pkey = 1\<rparr>,
         \<lparr>pt_pkey = 3, pt_name = ''T3'', pt_tile_type_pkey = 1\<rparr>]\<rparr>"

definition ex_grid :: "(string \<times> string) list" where
  "ex_grid = [(''T1'', ''INT''), (''T2'', ''INT''), (''T3'', ''INT'')]"

definition ex_get_wires :: "string \<Rightarrow> string list" where
  "ex_get_wires tile_type = [''A'', ''B'']"

definition ex_connections :: "connection list" where
  "ex_connections = [((''T1'', ''B''), (''T2'', ''A'')), ((''T2'', ''B''), (''T3'', ''A'')),
                     ((''T2'', ''A''), (''T1'', ''B''))]"

definition ex_wire_dflt :: wire_row where
  "ex_wire_dflt = mk_wire 0 None 0 0"

definition ex_node_dflt :: node_row where
  "ex_node_dflt = mk_node 0 None None None"

definition ex_grid_db_nodes :: database where
  "ex_grid_db_nodes = ex_grid_db
     \<lparr>wire := [mk_wire 1 (Some 1) 1 1, mk_wire 2 (Some 2) 1 2, mk_wire 3 (Some 2) 2 1,
               mk_wire 4 (Some 3) 2 2, mk_wire 5 (Some 3) 3 1, mk_wire 6 (Some 4) 3 2],
      node := [mk_node 1 (Some 0) None None, mk_node 2 (Some 0) None None,
               mk_node 3 (Some 0) None None, mk_node 4 (Some 0) None None]\<rparr>"


text \<open>
  A tie-off site with its two pins, a wire on each (nodes 1 and 2) and a routing wire
  (node 3); nodes 4 and 5 stand for the constant nodes.
\<close>

definition ex_tieoff :: database where
  "ex_tieoff = empty_database
     \<lparr>site_type := [\<lparr>st_pkey = 1, st_name = ''SLICEL''\<rparr>, \<lparr>st_pkey = 2, st_name = ''TIEOFF''\<rparr>],
      site_pin := [\<lparr>sp_pkey = 1, sp_name = ''A1'', sp_site_type_pkey = 1\<rparr>,
                   \<lparr>sp_pkey = 2, sp_name = ''HARD0'', sp_site_type_pkey = 2\<rparr>,
                   \<lparr>sp_pkey = 3, sp_name = ''HARD1'', sp_site_type_pkey = 2\<rparr>],
      wire_in_tile := [mk_wire_in_tile 1 (Some 3), mk_wire_in_tile 2 (Some 2), mk_wire_in_tile 3 None],
      wire := [mk_wire 1 (Some 1) 1 1, mk_wire 2 (Some 2) 1 2, mk_wire 3 (Some 3) 1 3],
      node := [mk_node 1 (Some 0) (Some 1) (Some NULL), mk_node 2 (Some 0) (Some 2) (Some NULL),
               mk_node 3 (Some 2) None (Some CHANNEL),
               mk_node 4 (Some 0) None (Some CHANNEL), mk_node 5 (Some 0) None (Some CHANNEL)]\<rparr>"

definition ex_tieoff_connected :: database where
  "ex_tieoff_connected = ex_tieoff
     \<lparr>node := [(mk_node 1 (Some 0) (Some 1) (Some NULL))\<lparr>track_pkey := Some 7\<rparr>,
               (mk_node 2 (Some 0) (Some 2) (Some NULL))\<lparr>track_pkey := Some 8\<rparr>,
               mk_node 3 (Some 2) None (Some CHANNEL),
               mk_node 4 (Some 0) None (Some CHANNEL), mk_node 5 (Some 0) None (Some CHANNEL)]\<rparr>"

section \<open>Properties of the SQL helpers\<close>

lemma group_count_iff:
  "(k, c) \<in> set (group_count key rows) \<longleftrightarrow>
     k \<in> key ` set rows \<and> c = length (filter (\<lambda>r. key r = k) rows)"
  by (auto simp: group_count_def)

lemma sql_max_Some: "sql_max xs = Some m \<longleftrightarrow> xs \<noteq> [] \<and> m = Max (set xs)"
proof (cases xs)
  case Nil
  then show ?thesis by (simp add: sql_max_def)
next
  case (Cons a list)
  have "fold max list a = Max (set (a # list))" by (simp only: Max.set_eq_fold)
  then show ?thesis using Cons by (auto simp: sql_max_def)
qed

lemma sql_max_ge: "sql_max xs = Some m \<Longrightarrow> x \<in> set xs \<Longrightarrow> x \<le> m"
  by (simp add: sql_max_Some)

lemma two_members_length:
  assumes "a \<in> set xs" "b \<in> set xs" "a \<noteq> b"
  shows "2 \<le> length xs"
proof -
  have "{a, b} \<subseteq> set xs" using assms by simp
  then have "card {a, b} \<le> card (set xs)" by (intro card_mono) simp_all
  also have "\<dots> \<le> length xs" by (rule card_length)
  finally show ?thesis using assms(3) by simp
qed

section \<open>The Node Annotator\<close>

lemma site_wires_iff:
  "(wt, w) \<in> set (site_wires db) \<longleftrightarrow>
     wt \<in> set (wire_in_tile db) \<and> w \<in> set (wire db) \<and>
     wire_wire_in_tile_pkey w = wit_pkey wt \<and> wit_site_pin_pkey wt \<noteq> None"
  by (auto simp: site_wires_def)

lemma has_site_pin_site_wires:
  assumes "w \<in> set (wire db)" "has_site_pin db w"
  shows "\<exists>wt. (wt, w) \<in> set (site_wires db)"
proof -
  from assms(2) obtain wt where "wt \<in> set (wire_in_tile db)"
    "wit_pkey wt = wire_wire_in_tile_pkey w" "wit_site_pin_pkey wt \<noteq> None"
    unfolding has_site_pin_def by (elim bexE conjE)
  with assms(1) have "(wt, w) \<in> set (site_wires db)" by (simp add: site_wires_iff)
  then show ?thesis ..
qed

lemma node_sites_member:
  assumes "(wt, w) \<in> set (site_wires db)"
  shows "(wire_node_pkey w,
          length (filter (\<lambda>(wt', w'). wire_node_pkey w' = wire_node_pkey w) (site_wires db)))
           \<in> set (node_sites db)"
proof -
  have "wire_node_pkey w \<in> (\<lambda>(wt, w). wire_node_pkey w) ` set (site_wires db)"
    using assms by (rule rev_image_eqI) simp
  then show ?thesis
    unfolding node_sites_def group_count_iff by (simp add: case_prod_unfold)
qed

lemma two_site_wires_abort:
  assumes "w1 \<in> set (wire db)" "w2 \<in> set (wire db)" "w1 \<noteq> w2"
    "wire_node_pkey w1 = wire_node_pkey w2" "has_site_pin db w1" "has_site_pin db w2"
  shows "count_sites_and_pips_on_nodes db = Inl AssertionError"
proof -
  obtain wt1 where 1: "(wt1, w1) \<in> set (site_wires db)"
    using has_site_pin_site_wires[OF assms(1,5)] by blast
  obtain wt2 where 2: "(wt2, w2) \<in> set (site_wires db)"
    using has_site_pin_site_wires[OF assms(2,6)] by blast
  let ?g = "filter (\<lambda>(wt', w'). wire_node_pkey w' = wire_node_pkey w1) (site_wires db)"
  have "(wt1, w1) \<in> set ?g" "(wt2, w2) \<in> set ?g" using 1 2 assms(4) by simp_all
  moreover have "(wt1, w1) \<noteq> (wt2, w2)" using assms(3) by simp
  ultimately have len: "2 \<le> length ?g" by (rule two_members_length)
  have "length ?g \<in> snd ` set (node_sites db)"
    using node_sites_member[OF 1] by (rule rev_image_eqI) simp
  then have mem: "length ?g \<in> set (map snd (node_sites db))" by simp
  have "sql_max (map snd (node_sites db)) \<noteq> Some 1"
  proof
    assume "sql_max (map snd (node_sites db)) = Some 1"
    from sql_max_ge[OF this mem] len show False by simp
  qed
  then show ?thesis by (simp add: count_sites_and_pips_on_nodes_def)
qed

lemma no_site_wires_abort:
  assumes "\<forall>w \<in> set (wire db). \<not> has_site_pin db w"
  shows "count_sites_and_pips_on_nodes db = Inl AssertionError"
proof -
  have "site_wires db = []"
  proof (cases "site_wires db")
    case Nil
    then show ?thesis .
  next
    case (Cons x xs)
    obtain wt w where x: "x = (wt, w)" by (cases x)
    have "(wt, w) \<in> set (site_wires db)" unfolding Cons x by simp
    then have "w \<in> set (wire db)" "has_site_pin db w"
      unfolding site_wires_iff has_site_pin_def by auto
    with assms show ?thesis by blast
  qed
  then have "node_sites db = []" by (simp add: node_sites_def group_count_def)
  then show ?thesis by (simp add: count_sites_and_pips_on_nodes_def sql_max_def)
qed

lemma count_sites_result:
  "count_sites_and_pips_on_nodes db = Inr db' \<longleftrightarrow>
     sql_max (map snd (node_sites db)) = Some 1 \<and>
     db' = (let db1 = db\<lparr>node := map (\<lambda>r. r\<lparr>site_wire_pkey := site_wire_of db (node_pkey r)\<rparr>) (node db)\<rparr>
            in db1\<lparr>node := map (set_number_pips (node_pip_count db1)) (node db1)\<rparr>)"
  by (auto simp: count_sites_and_pips_on_nodes_def Let_def)

lemma count_sites_abort:
  "count_sites_and_pips_on_nodes db = Inl e \<longleftrightarrow>
     e = AssertionError \<and> sql_max (map snd (node_sites db)) \<noteq> Some 1"
  by (auto simp: count_sites_and_pips_on_nodes_def Let_def)

lemma count_sites_tables:
  assumes "count_sites_and_pips_on_nodes db = Inr db'"
  shows "wire db' = wire db" "pip_in_tile db' = pip_in_tile db" "wire_in_tile db' = wire_in_tile db"
    "edge_with_mux db' = edge_with_mux db" "site_pin db' = site_pin db" "site_type db' = site_type db"
    "tile db' = tile db"
  using assms by (simp_all add: count_sites_result Let_def)

lemma count_sites_node_rows:
  assumes "count_sites_and_pips_on_nodes db = Inr db'" "r \<in> set (node db')"
  shows "site_wire_pkey r = site_wire_of db (node_pkey r)"
proof -
  let ?db1 = "db\<lparr>node := map (\<lambda>r. r\<lparr>site_wire_pkey := site_wire_of db (node_pkey r)\<rparr>) (node db)\<rparr>"
  from assms obtain r0 where "r0 \<in> set (node db)"
    and r: "r = set_number_pips (node_pip_count ?db1) (r0\<lparr>site_wire_pkey := site_wire_of db (node_pkey r0)\<rparr>)"
    by (auto simp: count_sites_result Let_def)
  show ?thesis unfolding r by (simp add: set_number_pips_def)
qed

lemma group_le_one:
  assumes "sql_max (map snd (node_sites db)) = Some 1"
  shows "length (filter (\<lambda>(wt, w). wire_node_pkey w = k) (site_wires db)) \<le> 1"
proof (cases "filter (\<lambda>(wt, w). wire_node_pkey w = k) (site_wires db)")
  case Nil
  then show ?thesis by simp
next
  case (Cons x xs)
  obtain wt w where x: "x = (wt, w)" by (cases x)
  have "x \<in> set (filter (\<lambda>(wt, w). wire_node_pkey w = k) (site_wires db))"
    unfolding Cons by simp
  then have mem: "(wt, w) \<in> set (site_wires db)" and k: "wire_node_pkey w = k"
    unfolding x by simp_all
  have "length (filter (\<lambda>(wt', w'). wire_node_pkey w' = k) (site_wires db)) \<in> snd ` set (node_sites db)"
    using node_sites_member[OF mem] unfolding k by (rule rev_image_eqI) simp
  then have "length (filter (\<lambda>(wt', w'). wire_node_pkey w' = k) (site_wires db))
               \<in> set (map snd (node_sites db))"
    by simp
  from sql_max_ge[OF assms this] show ?thesis .
qed

lemma site_wire_of_iff:
  assumes "sql_max (map snd (node_sites db)) = Some 1"
  shows "site_wire_of db n = Some k \<longleftrightarrow>
     (\<exists>w \<in> set (wire db). wire_pkey w = k \<and> wire_node_pkey w = Some n \<and> has_site_pin db w)"
proof
  let ?g = "filter (\<lambda>(wt, w). wire_node_pkey w = Some n) (site_wires db)"
  assume "site_wire_of db n = Some k"
  then obtain x xs where g: "?g = x # xs" and k: "k = (case x of (wt, w) \<Rightarrow> wire_pkey w)"
    by (auto simp: site_wire_of_def first_row_def split: list.splits)
  obtain wt w where x: "x = (wt, w)" by (cases x)
  have "x \<in> set ?g" unfolding g by simp
  then have "(wt, w) \<in> set (site_wires db)" "wire_node_pkey w = Some n" unfolding x by simp_all
  then have "w \<in> set (wire db)" "has_site_pin db w" "wire_node_pkey w = Some n" "wire_pkey w = k"
    unfolding site_wires_iff has_site_pin_def using k x by auto
  then show "\<exists>w \<in> set (wire db). wire_pkey w = k \<and> wire_node_pkey w = Some n \<and> has_site_pin db w"
    by blast
next
  let ?g = "filter (\<lambda>(wt, w). wire_node_pkey w = Some n) (site_wires db)"
  assume "\<exists>w \<in> set (wire db). wire_pkey w = k \<and> wire_node_pkey w = Some n \<and> has_site_pin db w"
  then obtain w where w: "w \<in> set (wire db)" "wire_pkey w = k" "wire_node_pkey w = Some n"
    "has_site_pin db w"
    by blast
  from has_site_pin_site_wires[OF w(1,4)] obtain wt where "(wt, w) \<in> set (site_wires db)" ..
  then have mem: "(wt, w) \<in> set ?g" using w(3) by simp
  have "length ?g \<le> 1" by (rule group_le_one[OF assms])
  with mem have "?g = [(wt, w)]"
    by (cases ?g) (auto simp del: filter.simps set_filter)
  then show "site_wire_of db n = Some k"
    by (simp add: site_wire_of_def first_row_def w(2))
qed

lemmas annotator_defs = empty_database_def
  site_wires_def node_sites_def group_count_def sql_max_def first_row_def site_wire_of_def
  pip_on_wire_def pip_wires_def node_pip_count_def set_number_pips_def
  count_sites_and_pips_on_nodes_def has_site_pin_def

lemmas mk_defs = mk_wire_def mk_wire_in_tile_def mk_pip_def mk_node_def

lemma ex_fabric_annotated_eq:
  "count_sites_and_pips_on_nodes ex_fabric = Inr ex_fabric_annotated"
  by (simp add: ex_fabric_def ex_fabric_annotated_def mk_defs annotator_defs)

text \<open>
  C8.  The annotator stops with an \<open>AssertionError\<close> as soon as two different wire
  rows of one node both carry a site pin; and when it returns, the column
  \<^verbatim>\<open>site_wire_pkey\<close> of every node row holds the key of a wire exactly when that wire
  is a member of the node and carries a site pin.  The column holds one key, and by the
  first part no node that passes has a second such wire: at most one site-pin wire is
  recorded per node.
\<close>

theorem count_sites_one_site_wire_per_node:
  "(w1 \<in> set (wire db) \<and> w2 \<in> set (wire db) \<and> w1 \<noteq> w2 \<and>
    wire_node_pkey w1 = wire_node_pkey w2 \<and> has_site_pin db w1 \<and> has_site_pin db w2
      \<longrightarrow> count_sites_and_pips_on_nodes db = Inl AssertionError) \<and>
   (count_sites_and_pips_on_nodes db = Inr db'
      \<longrightarrow> (\<forall>r \<in> set (node db'). \<forall>k.
             site_wire_pkey r = Some k \<longleftrightarrow>
               (\<exists>w \<in> set (wire db). wire_pkey w = k \<and> wire_node_pkey w = Some (node_pkey r)
                                     \<and> has_site_pin db w)))"
proof (intro conjI impI ballI allI)
  assume "w1 \<in> set (wire db) \<and> w2 \<in> set (wire db) \<and> w1 \<noteq> w2 \<and>
    wire_node_pkey w1 = wire_node_pkey w2 \<and> has_site_pin db w1 \<and> has_site_pin db w2"
  then show "count_sites_and_pips_on_nodes db = Inl AssertionError"
    using two_site_wires_abort by blast
next
  fix r k
  assume run: "count_sites_and_pips_on_nodes db = Inr db'" and r: "r \<in> set (node db')"
  have "sql_max (map snd (node_sites db)) = Some 1" using run by (simp add: count_sites_result)
  from site_wire_of_iff[OF this] count_sites_node_rows[OF run r]
  show "site_wire_pkey r = Some k \<longleftrightarrow>
      (\<exists>w \<in> set (wire db). wire_pkey w = k \<and> wire_node_pkey w = Some (node_pkey r)
                            \<and> has_site_pin db w)"
    by simp
qed

theorem count_sites_one_site_wire_per_node_witness:
  "mk_wire 1 (Some 1) 1 1 \<in> set (wire ex_two_site_pins) \<and>
   mk_wire 2 (Some 1) 1 2 \<in> set (wire ex_two_site_pins) \<and>
   mk_wire 1 (Some 1) 1 1 \<noteq> mk_wire 2 (Some 1) 1 2 \<and>
   has_site_pin ex_two_site_pins (mk_wire 1 (Some 1) 1 1) \<and>
   has_site_pin ex_two_site_pins (mk_wire 2 (Some 1) 1 2) \<and>
   count_sites_and_pips_on_nodes ex_two_site_pins = Inl AssertionError \<and>
   count_sites_and_pips_on_nodes ex_fabric = Inr ex_fabric_annotated \<and>
   mk_node 1 (Some 1) (Some 1) None \<in> set (node ex_fabric_annotated) \<and>
   (\<exists>w \<in> set (wire ex_fabric). wire_pkey w = 1 \<and> wire_node_pkey w = Some 1 \<and> has_site_pin ex_fabric w)"
proof -
  have hyp: "mk_wire 1 (Some 1) 1 1 \<in> set (wire ex_two_site_pins) \<and>
     mk_wire 2 (Some 1) 1 2 \<in> set (wire ex_two_site_pins) \<and>
     mk_wire 1 (Some 1) 1 1 \<noteq> mk_wire 2 (Some 1) 1 2 \<and>
     wire_node_pkey (mk_wire 1 (Some 1) 1 1) = wire_node_pkey (mk_wire 2 (Some 1) 1 2) \<and>
     has_site_pin ex_two_site_pins (mk_wire 1 (Some 1) 1 1) \<and>
     has_site_pin ex_two_site_pins (mk_wire 2 (Some 1) 1 2)"
    by (simp add: ex_two_site_pins_def mk_defs empty_database_def has_site_pin_def)
  have abort: "count_sites_and_pips_on_nodes ex_two_site_pins = Inl AssertionError"
    using count_sites_one_site_wire_per_node
            [of "mk_wire 1 (Some 1) 1 1" ex_two_site_pins "mk_wire 2 (Some 1) 1 2"] hyp
    by blast
  have mem: "mk_node 1 (Some 1) (Some 1) None \<in> set (node ex_fabric_annotated)"
    by (simp add: ex_fabric_annotated_def)
  have sw: "site_wire_pkey (mk_node 1 (Some 1) (Some 1) None) = Some 1"
    "node_pkey (mk_node 1 (Some 1) (Some 1) None) = 1"
    by (simp_all add: mk_node_def)
  have "\<exists>w \<in> set (wire ex_fabric). wire_pkey w = 1 \<and> wire_node_pkey w = Some 1 \<and> has_site_pin ex_fabric w"
    using count_sites_one_site_wire_per_node[of _ ex_fabric _ ex_fabric_annotated]
      ex_fabric_annotated_eq mem sw by metis
  with hyp abort mem ex_fabric_annotated_eq show ?thesis by simp
qed

text \<open>
  C9.  The check is \<^verbatim>\<open>assert c.fetchone()[0] == 1\<close> on the maximum of the site-pin
  counts: the annotator returns exactly when that maximum is 1.  On a fabric none of
  whose wires carries a site pin the aggregation is empty, its maximum is SQL NULL, and
  the run stops with an \<open>AssertionError\<close> although no node has two site-pin wires.
\<close>

theorem count_sites_aborts_without_site_pins:
  "((\<exists>db'. count_sites_and_pips_on_nodes db = Inr db') \<longleftrightarrow>
      sql_max (map snd (node_sites db)) = Some 1) \<and>
   ((\<forall>w \<in> set (wire db). \<not> has_site_pin db w)
      \<longrightarrow> count_sites_and_pips_on_nodes db = Inl AssertionError)"
  using no_site_wires_abort[of db] by (auto simp: count_sites_result)

theorem count_sites_aborts_without_site_pins_witness:
  "wire ex_no_site_pins = [mk_wire 1 (Some 1) 1 1] \<and>
   \<not> has_site_pin ex_no_site_pins (mk_wire 1 (Some 1) 1 1) \<and>
   sql_max (map snd (node_sites ex_no_site_pins)) = None \<and>
   count_sites_and_pips_on_nodes ex_no_site_pins = Inl AssertionError"
proof -
  have w: "wire ex_no_site_pins = [mk_wire 1 (Some 1) 1 1]"
    by (simp add: ex_no_site_pins_def)
  have n: "\<not> has_site_pin ex_no_site_pins (mk_wire 1 (Some 1) 1 1)"
    by (simp add: ex_no_site_pins_def mk_defs empty_database_def has_site_pin_def)
  have m: "sql_max (map snd (node_sites ex_no_site_pins)) = None"
    by (simp add: ex_no_site_pins_def mk_defs annotator_defs)
  have "\<forall>w \<in> set (wire ex_no_site_pins). \<not> has_site_pin ex_no_site_pins w"
    using w n by simp
  then have "count_sites_and_pips_on_nodes ex_no_site_pins = Inl AssertionError"
    using count_sites_aborts_without_site_pins[of ex_no_site_pins] by blast
  with w n m show ?thesis by simp
qed

section \<open>The Node Classifier\<close>

subsection \<open>The updates\<close>

lemma update_classification_tables [simp]:
  "wire (update_classification c P db) = wire db"
  "pip_in_tile (update_classification c P db) = pip_in_tile db"
  "wire_in_tile (update_classification c P db) = wire_in_tile db"
  "edge_with_mux (update_classification c P db) = edge_with_mux db"
  "site_pin (update_classification c P db) = site_pin db"
  "site_type (update_classification c P db) = site_type db"
  "tile (update_classification c P db) = tile db"
  "phy_tile (update_classification c P db) = phy_tile db"
  by (simp_all add: update_classification_def)

lemma node_update_classification:
  "node (update_classification c P db) =
     map (\<lambda>r. if P r then r\<lparr>classification := Some c\<rparr> else r) (node db)"
  by (simp add: update_classification_def)

lemma fold_update_classification_node:
  "node (fold (\<lambda>n. update_classification c (\<lambda>r. node_pkey r = n)) ns db) =
     map (\<lambda>r. if node_pkey r \<in> set ns then r\<lparr>classification := Some c\<rparr> else r) (node db)"
proof (induction ns arbitrary: db)
  case Nil
  then show ?case by simp
next
  case (Cons n ns)
  show ?case
    unfolding fold_simps Cons.IH node_update_classification map_map
    by (rule map_cong) auto
qed

lemma fold_update_classification_edges:
  "edge_with_mux (fold (\<lambda>n. update_classification c (\<lambda>r. node_pkey r = n)) ns db) = edge_with_mux db"
  by (induction ns arbitrary: db) simp_all

lemma fold_update_classification_wire:
  "wire (fold (\<lambda>n. update_classification c (\<lambda>r. node_pkey r = n)) ns db) = wire db"
  "pip_in_tile (fold (\<lambda>n. update_classification c (\<lambda>r. node_pkey r = n)) ns db) = pip_in_tile db"
  by (induction ns arbitrary: db) simp_all

lemma apply_edge_with_mux_simps:
  "node (apply_edge_with_mux e db) =
     map (\<lambda>r. if node_pkey r = fst (fst e) \<or> node_pkey r = snd (fst e)
               then r\<lparr>classification := Some EDGE_WITH_MUX\<rparr> else r) (node db)"
  "edge_with_mux (apply_edge_with_mux e db) = edge_with_mux db @ [edge_row e]"
  "wire (apply_edge_with_mux e db) = wire db"
  "pip_in_tile (apply_edge_with_mux e db) = pip_in_tile db"
  by (simp_all add: apply_edge_with_mux_def edge_row_def node_update_classification split: prod.splits)

lemma fold_apply_edge_with_mux:
  "node (fold apply_edge_with_mux es db) =
     map (\<lambda>r. if node_pkey r \<in> (\<Union>e \<in> set es. {fst (fst e), snd (fst e)})
               then r\<lparr>classification := Some EDGE_WITH_MUX\<rparr> else r) (node db)"
  "edge_with_mux (fold apply_edge_with_mux es db) = edge_with_mux db @ map edge_row es"
  "wire (fold apply_edge_with_mux es db) = wire db"
  "pip_in_tile (fold apply_edge_with_mux es db) = pip_in_tile db"
proof (induction es arbitrary: db)
  case Nil
  {
    case 1 show ?case by simp
  next
    case 2 show ?case by simp
  next
    case 3 show ?case by simp
  next
    case 4 show ?case by simp
  }
next
  case (Cons e es)
  {
    case 1
    show ?case
      unfolding fold_simps Cons.IH(1) apply_edge_with_mux_simps map_map
      by (rule map_cong) auto
  next
    case 2 show ?case by (simp add: Cons.IH(2) apply_edge_with_mux_simps)
  next
    case 3 show ?case by (simp add: Cons.IH(3) apply_edge_with_mux_simps)
  next
    case 4 show ?case by (simp add: Cons.IH(4) apply_edge_with_mux_simps)
  }
qed

lemma apply_classify_acc_node:
  "node (apply_classify_acc acc db) =
     map (\<lambda>r. r\<lparr>classification := final_classification acc r\<rparr>) (node db)"
  unfolding apply_classify_acc_def fold_update_classification_node fold_apply_edge_with_mux map_map
  by (rule map_cong) (auto simp: final_classification_def edge_with_mux_nodes_def)

lemma apply_classify_acc_edges:
  "edge_with_mux (apply_classify_acc acc db) = edge_with_mux db @ map edge_row (edge_with_mux_acc acc)"
  unfolding apply_classify_acc_def fold_update_classification_edges fold_apply_edge_with_mux ..

lemma apply_classify_acc_wire:
  "wire (apply_classify_acc acc db) = wire db"
  "pip_in_tile (apply_classify_acc acc db) = pip_in_tile db"
  unfolding apply_classify_acc_def fold_update_classification_wire fold_apply_edge_with_mux by simp_all

subsection \<open>The loop over the ambiguous nodes\<close>

lemma classify_nodes_branch_eq:
  "classify_nodes_branch n sw t acc =
     acc\<lparr>null_nodes := null_nodes acc @ null_of n t,
         edges_to_channel := edges_to_channel acc @ edges_to_channel_of n t,
         edge_with_mux_acc := edge_with_mux_acc acc @ edge_with_mux_of n sw t\<rparr>"
  by (cases "t_other_site_wire_pkey t")
     (simp_all add: classify_nodes_branch_def null_of_def edges_to_channel_of_def
        edge_with_mux_of_def)

lemma classify_nodes_loop_result:
  assumes "classify_nodes_loop db xs acc = Inr acc'"
  shows "null_nodes acc' = null_nodes acc @
           concat (map (\<lambda>(n, sw). null_of n (projr (classify_nodes_neighbor db n))) xs)"
    and "edges_to_channel acc' = edges_to_channel acc @
           concat (map (\<lambda>(n, sw). edges_to_channel_of n (projr (classify_nodes_neighbor db n))) xs)"
    and "edge_with_mux_acc acc' = edge_with_mux_acc acc @
           concat (map (\<lambda>(n, sw). edge_with_mux_of n sw (projr (classify_nodes_neighbor db n))) xs)"
    and "\<forall>(n, sw) \<in> set xs. \<exists>t. classify_nodes_neighbor db n = Inr t"
  using assms
proof (induction xs arbitrary: acc)
  case Nil
  {
    case 1 then show ?case by simp
  next
    case 2 then show ?case by simp
  next
    case 3 then show ?case by simp
  next
    case 4 then show ?case by simp
  }
next
  case (Cons x xs)
  obtain n sw where x: "x = (n, sw)" by (cases x)
  {
    case 1
    then obtain t where t: "classify_nodes_neighbor db n = Inr t"
      and rest: "classify_nodes_loop db xs (classify_nodes_branch n sw t acc) = Inr acc'"
      unfolding x by (auto split: sum.splits)
    show ?case
      using Cons.IH(1)[OF rest] by (simp add: x t classify_nodes_branch_eq)
  next
    case 2
    then obtain t where t: "classify_nodes_neighbor db n = Inr t"
      and rest: "classify_nodes_loop db xs (classify_nodes_branch n sw t acc) = Inr acc'"
      unfolding x by (auto split: sum.splits)
    show ?case
      using Cons.IH(2)[OF rest] by (simp add: x t classify_nodes_branch_eq)
  next
    case 3
    then obtain t where t: "classify_nodes_neighbor db n = Inr t"
      and rest: "classify_nodes_loop db xs (classify_nodes_branch n sw t acc) = Inr acc'"
      unfolding x by (auto split: sum.splits)
    show ?case
      using Cons.IH(3)[OF rest] by (simp add: x t classify_nodes_branch_eq)
  next
    case 4
    then obtain t where t: "classify_nodes_neighbor db n = Inr t"
      and rest: "classify_nodes_loop db xs (classify_nodes_branch n sw t acc) = Inr acc'"
      unfolding x by (auto split: sum.splits)
    show ?case
      using Cons.IH(4)[OF rest] by (simp add: x t)
  }
qed

lemma classify_nodes_loop_total:
  assumes "\<forall>(n, sw) \<in> set xs. \<exists>t. classify_nodes_neighbor db n = Inr t"
  shows "\<exists>acc'. classify_nodes_loop db xs acc = Inr acc'"
  using assms by (induction xs arbitrary: acc) (auto split: sum.splits)

lemma ambiguous_nodes_iff:
  "(n, sw) \<in> set (ambiguous_nodes db) \<longleftrightarrow>
     (\<exists>r \<in> set (node db). node_pkey r = n \<and> site_wire_pkey r = Some sw \<and> number_pips r = Some 1)"
  by (force simp: ambiguous_nodes_def List.map_filter_def split: option.splits if_splits)

subsection \<open>The first three updates\<close>

lemma classify_unambiguous_tables [simp]:
  "wire (classify_unambiguous db) = wire db"
  "pip_in_tile (classify_unambiguous db) = pip_in_tile db"
  "edge_with_mux (classify_unambiguous db) = edge_with_mux db"
  by (simp_all add: classify_unambiguous_def)

lemma where_classification_update [simp]:
  "where_null (r\<lparr>classification := c\<rparr>) = where_null r"
  "where_channel (r\<lparr>classification := c\<rparr>) = where_channel r"
  "where_edges_to_channel (r\<lparr>classification := c\<rparr>) = where_edges_to_channel r"
  by (simp_all add: where_null_def where_channel_def where_edges_to_channel_def pips_where_def)

lemma classify_unambiguous_node:
  "node (classify_unambiguous db) = map initial_row (node db)"
  unfolding classify_unambiguous_def node_update_classification map_map
  by (rule map_cong) (auto simp: initial_row_def)

lemma initial_row_facts [simp]:
  "node_pkey (initial_row r) = node_pkey r"
  "number_pips (initial_row r) = number_pips r"
  "site_wire_pkey (initial_row r) = site_wire_pkey r"
  "track_pkey (initial_row r) = track_pkey r"
  by (simp_all add: initial_row_def)

lemma initial_row_classification:
  "where_null r \<Longrightarrow> classification (initial_row r) = Some NULL"
  "where_channel r \<Longrightarrow> classification (initial_row r) = Some CHANNEL"
  "where_edges_to_channel r \<Longrightarrow> classification (initial_row r) = Some EDGES_TO_CHANNEL"
  "ambiguous r \<Longrightarrow> classification (initial_row r) = classification r"
  by (auto simp: initial_row_def where_null_def where_channel_def where_edges_to_channel_def
      pips_where_def ambiguous_def split: option.splits)

lemma ambiguous_nodes_classify_unambiguous:
  "ambiguous_nodes (classify_unambiguous db) = ambiguous_nodes db"
  by (simp add: ambiguous_nodes_def classify_unambiguous_node List.map_filter_def filter_map comp_def
      cong: option.case_cong if_cong)

subsection \<open>The disambiguation traversal\<close>

lemma node_pips_iff:
  "(p, w) \<in> set (node_pips db n) \<longleftrightarrow>
     w \<in> set (wire db) \<and> wire_node_pkey w = Some n \<and> p \<in> set (pip_in_tile db) \<and>
     pip_on_wire p (wire_wire_in_tile_pkey w)"
  by (auto simp: node_pips_def wire_pips_def pip_on_wire_def)

lemma classify_nodes_pip_Inr:
  assumes "classify_nodes_pip db n = Inr (p, w)"
  shows "(p, w) \<in> set (node_pips db n)" "hd (node_pips db n) = (p, w)" "node_pips db n \<noteq> []"
proof -
  from assms obtain xs where "node_pips db n = (p, w) # xs"
    by (cases "node_pips db n") (auto simp: classify_nodes_pip_def split: if_splits prod.splits)
  then show "(p, w) \<in> set (node_pips db n)" "hd (node_pips db n) = (p, w)" "node_pips db n \<noteq> []"
    by simp_all
qed

lemma classify_nodes_pip_nonempty:
  assumes "node_pips db n = (p, w) # xs"
  shows "classify_nodes_pip db n = Inr (p, w)"
proof -
  have "(p, w) \<in> set (node_pips db n)" using assms by simp
  then have "pip_on_wire p (wire_wire_in_tile_pkey w)" by (simp add: node_pips_iff)
  then show ?thesis using assms by (auto simp: classify_nodes_pip_def pip_on_wire_def)
qed

lemma classify_nodes_pip_empty:
  "node_pips db n = [] \<Longrightarrow> classify_nodes_pip db n = Inl TypeError"
  by (simp add: classify_nodes_pip_def)

lemma classify_nodes_neighbor_InrD:
  assumes "classify_nodes_neighbor db n = Inr t"
  obtains p w w' r where
    "classify_nodes_pip db n = Inr (p, w)"
    "t_pip_pkey t = pip_pkey p"
    "t_src_wire_in_tile_pkey t = src_wire_in_tile_pkey p"
    "t_dest_wire_in_tile_pkey t = dest_wire_in_tile_pkey p"
    "t_wire_in_tile_pkey t = wire_wire_in_tile_pkey w"
    "t_phy_tile_pkey t = wire_phy_tile_pkey w"
    "t_other_wire t = (if src_wire_in_tile_pkey p = wire_wire_in_tile_pkey w
                       then dest_wire_in_tile_pkey p else src_wire_in_tile_pkey p)"
    "filter (\<lambda>w'. wire_wire_in_tile_pkey w' = t_other_wire t
                 \<and> wire_phy_tile_pkey w' = wire_phy_tile_pkey w) (wire db) = [w']"
    "wire_node_pkey w' = Some (t_other_node_pkey t)"
    "filter (\<lambda>r. node_pkey r = t_other_node_pkey t) (node db) = [r]"
    "t_other_site_wire_pkey t = site_wire_pkey r"
    "t_other_number_pips t = number_pips r"
proof -
  from assms obtain p w where pw: "classify_nodes_pip db n = Inr (p, w)"
    by (auto simp: classify_nodes_neighbor_def split: sum.splits)
  define ow where "ow = (if src_wire_in_tile_pkey p = wire_wire_in_tile_pkey w
                       then dest_wire_in_tile_pkey p else src_wire_in_tile_pkey p)"
  define ws where "ws = filter (\<lambda>w'. wire_wire_in_tile_pkey w' = ow
                 \<and> wire_phy_tile_pkey w' = wire_phy_tile_pkey w) (wire db)"
  have eq: "classify_nodes_neighbor db n =
     (case map wire_node_pkey ws of
         [] \<Rightarrow> Inl TypeError
       | other # rest \<Rightarrow>
           if rest \<noteq> [] then Inl AssertionError
           else
             (case other of
                None \<Rightarrow> Inl AssertionError
              | Some other_node \<Rightarrow>
                  (case filter (\<lambda>r. node_pkey r = other_node) (node db) of
                     [] \<Rightarrow> Inl AssertionError
                   | r # rest' \<Rightarrow>
                       if rest' \<noteq> [] then Inl AssertionError
                       else Inr \<lparr>t_pip_pkey = pip_pkey p,
                                t_src_wire_in_tile_pkey = src_wire_in_tile_pkey p,
                                t_dest_wire_in_tile_pkey = dest_wire_in_tile_pkey p,
                                t_wire_in_tile_pkey = wire_wire_in_tile_pkey w,
                                t_phy_tile_pkey = wire_phy_tile_pkey w,
                                t_other_wire = ow,
                                t_other_node_pkey = other_node,
                                t_other_site_wire_pkey = site_wire_pkey r,
                                t_other_number_pips = number_pips r\<rparr>)))"
    unfolding classify_nodes_neighbor_def pw sum.case prod.case Let_def ow_def ws_def ..
  from assms[unfolded eq] obtain w' where ws: "ws = [w']"
    by (cases ws) (auto split: if_splits list.splits)
  from assms[unfolded eq ws] obtain m where m: "wire_node_pkey w' = Some m"
    by (cases "wire_node_pkey w'") auto
  from assms[unfolded eq ws] m obtain r where r: "filter (\<lambda>r. node_pkey r = m) (node db) = [r]"
    by (cases "filter (\<lambda>r. node_pkey r = m) (node db)") (auto split: if_splits)
  from assms[unfolded eq ws] m r
  have t: "t = \<lparr>t_pip_pkey = pip_pkey p,
                                t_src_wire_in_tile_pkey = src_wire_in_tile_pkey p,
                                t_dest_wire_in_tile_pkey = dest_wire_in_tile_pkey p,
                                t_wire_in_tile_pkey = wire_wire_in_tile_pkey w,
                                t_phy_tile_pkey = wire_phy_tile_pkey w,
                                t_other_wire = ow,
                                t_other_node_pkey = m,
                                t_other_site_wire_pkey = site_wire_pkey r,
                                t_other_number_pips = number_pips r\<rparr>"
    by simp
  show thesis
    by (rule that[of p w w' r]) (use pw ws m r in \<open>simp_all add: t ow_def ws_def\<close>)
qed

lemma classify_nodes_neighbor_row:
  assumes "classify_nodes_neighbor db n = Inr t"
  shows "\<exists>r \<in> set (node db). node_pkey r = t_other_node_pkey t \<and>
           site_wire_pkey r = t_other_site_wire_pkey t \<and> number_pips r = t_other_number_pips t"
proof -
  from assms obtain r where r: "filter (\<lambda>r. node_pkey r = t_other_node_pkey t) (node db) = [r]"
    "t_other_site_wire_pkey t = site_wire_pkey r" "t_other_number_pips t = number_pips r"
    by (rule classify_nodes_neighbor_InrD)
  have "r \<in> set (filter (\<lambda>r. node_pkey r = t_other_node_pkey t) (node db))"
    unfolding r(1) by simp
  then have "r \<in> set (node db)" "node_pkey r = t_other_node_pkey t" by simp_all
  with r(2,3) show ?thesis by auto
qed

lemma classify_nodes_neighbor_cong:
  assumes "wire db' = wire db" "pip_in_tile db' = pip_in_tile db" "node db' = map f (node db)"
    and f: "\<And>r. node_pkey (f r) = node_pkey r" "\<And>r. site_wire_pkey (f r) = site_wire_pkey r"
      "\<And>r. number_pips (f r) = number_pips r"
  shows "classify_nodes_neighbor db' n = classify_nodes_neighbor db n"
proof -
  have pips: "classify_nodes_pip db' n = classify_nodes_pip db n"
    by (simp add: classify_nodes_pip_def node_pips_def wire_pips_def assms(1,2))
  have flt: "filter (\<lambda>r. node_pkey r = m) (node db') = map f (filter (\<lambda>r. node_pkey r = m) (node db))" for m
    by (simp add: assms(3) filter_map comp_def f(1))
  show ?thesis
    unfolding classify_nodes_neighbor_def pips assms(1) flt
    by (auto simp: Let_def f split: sum.splits list.splits option.splits)
qed

lemma classify_nodes_neighbor_classify_unambiguous:
  "classify_nodes_neighbor (classify_unambiguous db) n = classify_nodes_neighbor db n"
  by (rule classify_nodes_neighbor_cong[where f = initial_row])
     (simp_all add: classify_unambiguous_node)

lemma classify_nodes_loop_cong:
  assumes "\<And>n. classify_nodes_neighbor db' n = classify_nodes_neighbor db n"
  shows "classify_nodes_loop db' xs acc = classify_nodes_loop db xs acc"
  by (induction xs arbitrary: acc) (auto simp: assms split: sum.splits)

lemma classify_nodes_eq:
  "classify_nodes db =
     (case classify_nodes_loop db (ambiguous_nodes db) empty_acc of
        Inl e \<Rightarrow> Inl e
      | Inr acc \<Rightarrow> Inr (apply_classify_acc acc (classify_unambiguous db)))"
  unfolding classify_nodes_def Let_def ambiguous_nodes_classify_unambiguous empty_acc_def
    classify_nodes_loop_cong[of "classify_unambiguous db" db, OF classify_nodes_neighbor_classify_unambiguous]
  ..

subsection \<open>Which nodes the loop lists\<close>

lemma distinct_pkey_eq:
  assumes "distinct (map node_pkey rows)" "r1 \<in> set rows" "r2 \<in> set rows"
    "node_pkey r1 = node_pkey r2"
  shows "r1 = r2"
  using assms by (meson distinct_map inj_on_def)

lemma ambiguous_nodes_row:
  assumes "(n, sw) \<in> set (ambiguous_nodes db)"
  shows "\<exists>r \<in> set (node db). node_pkey r = n \<and> ambiguous r \<and> site_wire_pkey r = Some sw"
  using assms unfolding ambiguous_nodes_iff ambiguous_def by auto

lemma loop_null_nodesD:
  assumes "classify_nodes_loop db (ambiguous_nodes db) empty_acc = Inr acc"
    "n \<in> set (null_nodes acc)"
  obtains a sw t where "(a, sw) \<in> set (ambiguous_nodes db)"
    "classify_nodes_neighbor db a = Inr t"
    "t_other_site_wire_pkey t = None" "t_other_number_pips t = Some 1"
    "n = a \<or> n = t_other_node_pkey t"
proof -
  from classify_nodes_loop_result(1)[OF assms(1)] assms(2)
  obtain a sw where a: "(a, sw) \<in> set (ambiguous_nodes db)"
    and n: "n \<in> set (null_of a (projr (classify_nodes_neighbor db a)))"
    by (auto simp: empty_acc_def)
  from classify_nodes_loop_result(4)[OF assms(1)] a
  obtain t where t: "classify_nodes_neighbor db a = Inr t" by auto
  from n have "t_other_site_wire_pkey t = None" "t_other_number_pips t = Some 1"
    "n = a \<or> n = t_other_node_pkey t"
    by (auto simp: t null_of_def split: if_splits)
  with a t show thesis by (rule that)
qed

lemma loop_null_nodesI:
  assumes "classify_nodes_loop db (ambiguous_nodes db) empty_acc = Inr acc"
    "(a, sw) \<in> set (ambiguous_nodes db)" "classify_nodes_neighbor db a = Inr t"
    "t_other_site_wire_pkey t = None" "t_other_number_pips t = Some 1"
  shows "a \<in> set (null_nodes acc)" "t_other_node_pkey t \<in> set (null_nodes acc)"
proof -
  have "set (null_of a t) \<subseteq> set (null_nodes acc)"
    unfolding classify_nodes_loop_result(1)[OF assms(1)]
    using assms(2) by (force simp: assms(3))
  then show "a \<in> set (null_nodes acc)" "t_other_node_pkey t \<in> set (null_nodes acc)"
    by (simp_all add: null_of_def assms(4,5))
qed

lemma loop_edges_to_channelD:
  assumes "classify_nodes_loop db (ambiguous_nodes db) empty_acc = Inr acc"
    "n \<in> set (edges_to_channel acc)"
  obtains sw t where "(n, sw) \<in> set (ambiguous_nodes db)"
    "classify_nodes_neighbor db n = Inr t" "t_other_number_pips t \<noteq> Some 1"
proof -
  from classify_nodes_loop_result(2)[OF assms(1)] assms(2)
  obtain a sw where a: "(a, sw) \<in> set (ambiguous_nodes db)"
    and n: "n \<in> set (edges_to_channel_of a (projr (classify_nodes_neighbor db a)))"
    by (auto simp: empty_acc_def)
  from classify_nodes_loop_result(4)[OF assms(1)] a
  obtain t where t: "classify_nodes_neighbor db a = Inr t" by auto
  from n have "n = a" "t_other_number_pips t \<noteq> Some 1"
    by (auto simp: t edges_to_channel_of_def split: if_splits)
  with a t show thesis using that by blast
qed

lemma loop_edge_with_mux_iff:
  assumes "classify_nodes_loop db (ambiguous_nodes db) empty_acc = Inr acc"
  shows "e \<in> set (edge_with_mux_acc acc) \<longleftrightarrow>
     (\<exists>a sw t. (a, sw) \<in> set (ambiguous_nodes db) \<and> classify_nodes_neighbor db a = Inr t \<and>
        e \<in> set (edge_with_mux_of a sw t))"
proof
  assume "e \<in> set (edge_with_mux_acc acc)"
  with classify_nodes_loop_result(3)[OF assms]
  obtain a sw where a: "(a, sw) \<in> set (ambiguous_nodes db)"
    and em: "e \<in> set (edge_with_mux_of a sw (projr (classify_nodes_neighbor db a)))"
    by (auto simp: empty_acc_def)
  from classify_nodes_loop_result(4)[OF assms] a
  obtain t where t: "classify_nodes_neighbor db a = Inr t" by auto
  with a em show "\<exists>a sw t. (a, sw) \<in> set (ambiguous_nodes db) \<and> classify_nodes_neighbor db a = Inr t \<and>
        e \<in> set (edge_with_mux_of a sw t)"
    by auto
next
  assume "\<exists>a sw t. (a, sw) \<in> set (ambiguous_nodes db) \<and> classify_nodes_neighbor db a = Inr t \<and>
        e \<in> set (edge_with_mux_of a sw t)"
  then show "e \<in> set (edge_with_mux_acc acc)"
    unfolding classify_nodes_loop_result(3)[OF assms] by force
qed

lemma edge_with_mux_of_member:
  "e \<in> set (edge_with_mux_of a sw t) \<longleftrightarrow>
     (\<exists>so. t_other_site_wire_pkey t = Some so \<and> t_other_number_pips t = Some 1 \<and>
        e = ((a, t_other_node_pkey t),
             (if t_src_wire_in_tile_pkey t = t_wire_in_tile_pkey t then sw else so),
             (if t_src_wire_in_tile_pkey t = t_wire_in_tile_pkey t then so else sw),
             t_pip_pkey t))"
  by (cases "t_other_site_wire_pkey t") (auto simp: edge_with_mux_of_def)

lemma loop_edge_with_mux_nodesD:
  assumes "classify_nodes_loop db (ambiguous_nodes db) empty_acc = Inr acc"
    "n \<in> edge_with_mux_nodes acc"
  obtains a sw t so where "(a, sw) \<in> set (ambiguous_nodes db)"
    "classify_nodes_neighbor db a = Inr t"
    "t_other_site_wire_pkey t = Some so" "t_other_number_pips t = Some 1"
    "n = a \<or> n = t_other_node_pkey t"
proof -
  from assms(2) obtain e where e: "e \<in> set (edge_with_mux_acc acc)"
    and ne: "n = fst (fst e) \<or> n = snd (fst e)"
    by (auto simp: edge_with_mux_nodes_def)
  from e obtain a sw t where a: "(a, sw) \<in> set (ambiguous_nodes db)"
    and t: "classify_nodes_neighbor db a = Inr t" and em: "e \<in> set (edge_with_mux_of a sw t)"
    unfolding loop_edge_with_mux_iff[OF assms(1)] by blast
  from em obtain so where "t_other_site_wire_pkey t = Some so" "t_other_number_pips t = Some 1"
    "fst e = (a, t_other_node_pkey t)"
    unfolding edge_with_mux_of_member by auto
  with a t ne show thesis using that[of a sw t so] by auto
qed

lemma loop_edge_with_mux_nodesI:
  assumes "classify_nodes_loop db (ambiguous_nodes db) empty_acc = Inr acc"
    "(a, sw) \<in> set (ambiguous_nodes db)" "classify_nodes_neighbor db a = Inr t"
    "t_other_site_wire_pkey t = Some so" "t_other_number_pips t = Some 1"
  shows "a \<in> edge_with_mux_nodes acc" "t_other_node_pkey t \<in> edge_with_mux_nodes acc"
proof -
  let ?e = "((a, t_other_node_pkey t),
             (if t_src_wire_in_tile_pkey t = t_wire_in_tile_pkey t then sw else so),
             (if t_src_wire_in_tile_pkey t = t_wire_in_tile_pkey t then so else sw),
             t_pip_pkey t)"
  have "?e \<in> set (edge_with_mux_of a sw t)"
    unfolding edge_with_mux_of_member using assms(4,5) by simp
  then have "?e \<in> set (edge_with_mux_acc acc)"
    unfolding loop_edge_with_mux_iff[OF assms(1)] using assms(2,3) by blast
  then show "a \<in> edge_with_mux_nodes acc" "t_other_node_pkey t \<in> edge_with_mux_nodes acc"
    unfolding edge_with_mux_nodes_def by force+
qed

lemma loop_null_nodes:
  assumes "classify_nodes_loop db (ambiguous_nodes db) empty_acc = Inr acc"
    "n \<in> set (null_nodes acc)"
  shows "\<exists>r \<in> set (node db). node_pkey r = n \<and>
           (ambiguous r \<or> (site_wire_pkey r = None \<and> number_pips r = Some 1))"
proof -
  from assms obtain a sw t where a: "(a, sw) \<in> set (ambiguous_nodes db)"
    and t: "classify_nodes_neighbor db a = Inr t"
    and cond: "t_other_site_wire_pkey t = None" "t_other_number_pips t = Some 1"
    and cases: "n = a \<or> n = t_other_node_pkey t"
    by (rule loop_null_nodesD)
  from cases show ?thesis
  proof
    assume "n = a"
    with ambiguous_nodes_row[OF a] show ?thesis by auto
  next
    assume "n = t_other_node_pkey t"
    with classify_nodes_neighbor_row[OF t] cond show ?thesis by auto
  qed
qed

lemma loop_edges_to_channel:
  assumes "classify_nodes_loop db (ambiguous_nodes db) empty_acc = Inr acc"
    "n \<in> set (edges_to_channel acc)"
  shows "\<exists>r \<in> set (node db). node_pkey r = n \<and> ambiguous r"
proof -
  from assms obtain sw where "(n, sw) \<in> set (ambiguous_nodes db)"
    by (rule loop_edges_to_channelD)
  from ambiguous_nodes_row[OF this] show ?thesis by auto
qed

lemma loop_edge_with_mux:
  assumes "classify_nodes_loop db (ambiguous_nodes db) empty_acc = Inr acc"
    "n \<in> edge_with_mux_nodes acc"
  shows "\<exists>r \<in> set (node db). node_pkey r = n \<and> ambiguous r"
proof -
  from assms obtain a sw t so where a: "(a, sw) \<in> set (ambiguous_nodes db)"
    and t: "classify_nodes_neighbor db a = Inr t"
    and cond: "t_other_site_wire_pkey t = Some so" "t_other_number_pips t = Some 1"
    and cases: "n = a \<or> n = t_other_node_pkey t"
    by (rule loop_edge_with_mux_nodesD)
  from cases show ?thesis
  proof
    assume "n = a"
    with ambiguous_nodes_row[OF a] show ?thesis by auto
  next
    assume "n = t_other_node_pkey t"
    with classify_nodes_neighbor_row[OF t] cond show ?thesis by (auto simp: ambiguous_def)
  qed
qed

lemma classify_nodes_InrD:
  assumes "classify_nodes db = Inr db'"
  obtains acc where "classify_nodes_loop db (ambiguous_nodes db) empty_acc = Inr acc"
    "db' = apply_classify_acc acc (classify_unambiguous db)"
  using assms unfolding classify_nodes_eq by (auto split: sum.splits)

lemma classify_nodes_rows:
  assumes "classify_nodes_loop db (ambiguous_nodes db) empty_acc = Inr acc"
    "db' = apply_classify_acc acc (classify_unambiguous db)"
  shows "node db' = map (\<lambda>r. r\<lparr>classification := final_classification acc (initial_row r)\<rparr>) (node db)"
  unfolding assms(2) apply_classify_acc_node classify_unambiguous_node map_map
  by (rule map_cong) (simp_all add: initial_row_def)

lemma final_classification_initial_row:
  "final_classification acc (initial_row r) =
     (if node_pkey r \<in> set (null_nodes acc) then Some NULL
      else if node_pkey r \<in> set (edges_to_channel acc) then Some EDGES_TO_CHANNEL
      else if node_pkey r \<in> edge_with_mux_nodes acc then Some EDGE_WITH_MUX
      else classification (initial_row r))"
  by (simp add: final_classification_def)

lemma ambiguous_not_where:
  "ambiguous r \<Longrightarrow> \<not> where_null r \<and> \<not> where_channel r \<and> \<not> where_edges_to_channel r"
  by (auto simp: ambiguous_def where_null_def where_channel_def where_edges_to_channel_def
      pips_where_def)

text \<open>
  The classification a row of the input table ends with, when it matches one of the three
  unconditional updates: none of the later update loops touches such a node, except to
  set a \<open>NULL\<close> node to \<open>NULL\<close> again.
\<close>

lemma classify_nodes_row_unambiguous:
  assumes loop: "classify_nodes_loop db (ambiguous_nodes db) empty_acc = Inr acc"
    and dist: "distinct (map node_pkey (node db))"
    and r0: "r0 \<in> set (node db)"
  shows "((site_wire_pkey r0 = None \<and> (\<exists>k. number_pips r0 = Some k \<and> k \<le> 1)) \<or>
          (site_wire_pkey r0 \<noteq> None \<and> number_pips r0 = Some 0)
            \<longrightarrow> final_classification acc (initial_row r0) = Some NULL) \<and>
         ((\<exists>k. number_pips r0 = Some k \<and> k > 1) \<and> site_wire_pkey r0 = None
            \<longrightarrow> final_classification acc (initial_row r0) = Some CHANNEL) \<and>
         ((\<exists>k. number_pips r0 = Some k \<and> k > 1) \<and> site_wire_pkey r0 \<noteq> None
            \<longrightarrow> final_classification acc (initial_row r0) = Some EDGES_TO_CHANNEL)"
proof -
  have same: "r' = r0" if "r' \<in> set (node db)" "node_pkey r' = node_pkey r0" for r'
    using distinct_pkey_eq[OF dist that(1) r0 that(2)] .
  have e2c: "node_pkey r0 \<in> set (edges_to_channel acc) \<Longrightarrow> ambiguous r0"
    using loop_edges_to_channel[OF loop] same by blast
  have ewm: "node_pkey r0 \<in> edge_with_mux_nodes acc \<Longrightarrow> ambiguous r0"
    using loop_edge_with_mux[OF loop] same by blast
  have nul: "node_pkey r0 \<in> set (null_nodes acc) \<Longrightarrow>
               ambiguous r0 \<or> (site_wire_pkey r0 = None \<and> number_pips r0 = Some 1)"
    using loop_null_nodes[OF loop] same by blast
  have 1: "final_classification acc (initial_row r0) = Some NULL" if "where_null r0"
    using that e2c ewm ambiguous_not_where[of r0] initial_row_classification(1)[OF that]
    by (auto simp: final_classification_initial_row)
  have 2: "final_classification acc (initial_row r0) = Some CHANNEL" if "where_channel r0"
    using that e2c ewm nul ambiguous_not_where[of r0] initial_row_classification(2)[OF that]
    by (auto simp: final_classification_initial_row where_channel_def pips_where_def)
  have 3: "final_classification acc (initial_row r0) = Some EDGES_TO_CHANNEL"
    if "where_edges_to_channel r0"
    using that e2c ewm nul ambiguous_not_where[of r0] initial_row_classification(3)[OF that]
    by (auto simp: final_classification_initial_row where_edges_to_channel_def pips_where_def)
  show ?thesis
    using 1 2 3 unfolding where_null_def where_channel_def where_edges_to_channel_def
      pips_where_def
    by (auto split: option.splits)
qed

text \<open>
  C1.  On a node table with a primary key, once \<open>classify_nodes\<close> has returned, the node
  table has the rows of the input table, in their order, each changed in its
  classification only.  The row of a node that, as annotated in the input, has no
  site-pin wire and PIP count at most 1, or a site-pin wire and PIP count 0, is \<open>NULL\<close>;
  of a node with PIP count above 1 and no site-pin wire, \<open>CHANNEL\<close>; of a node with PIP
  count above 1 and a site-pin wire, \<open>EDGES_TO_CHANNEL\<close>.
\<close>

theorem classify_nodes_unambiguous:
  assumes "classify_nodes db = Inr db'" and "distinct (map node_pkey (node db))"
  shows "length (node db') = length (node db) \<and>
         (\<forall>i < length (node db).
            node db' ! i = (node db ! i)\<lparr>classification := classification (node db' ! i)\<rparr> \<and>
            ((site_wire_pkey (node db ! i) = None \<and>
                (\<exists>k. number_pips (node db ! i) = Some k \<and> k \<le> 1)) \<or>
             (site_wire_pkey (node db ! i) \<noteq> None \<and> number_pips (node db ! i) = Some 0)
               \<longrightarrow> classification (node db' ! i) = Some NULL) \<and>
            ((\<exists>k. number_pips (node db ! i) = Some k \<and> k > 1) \<and>
             site_wire_pkey (node db ! i) = None
               \<longrightarrow> classification (node db' ! i) = Some CHANNEL) \<and>
            ((\<exists>k. number_pips (node db ! i) = Some k \<and> k > 1) \<and>
             site_wire_pkey (node db ! i) \<noteq> None
               \<longrightarrow> classification (node db' ! i) = Some EDGES_TO_CHANNEL))"
proof -
  from assms(1) obtain acc where loop: "classify_nodes_loop db (ambiguous_nodes db) empty_acc = Inr acc"
    and db': "db' = apply_classify_acc acc (classify_unambiguous db)"
    by (rule classify_nodes_InrD)
  note rows = classify_nodes_rows[OF loop db']
  have len: "length (node db') = length (node db)" unfolding rows by simp
  have row: "node db' ! i = (node db ! i)\<lparr>classification := classification (node db' ! i)\<rparr> \<and>
            ((site_wire_pkey (node db ! i) = None \<and>
                (\<exists>k. number_pips (node db ! i) = Some k \<and> k \<le> 1)) \<or>
             (site_wire_pkey (node db ! i) \<noteq> None \<and> number_pips (node db ! i) = Some 0)
               \<longrightarrow> classification (node db' ! i) = Some NULL) \<and>
            ((\<exists>k. number_pips (node db ! i) = Some k \<and> k > 1) \<and>
             site_wire_pkey (node db ! i) = None
               \<longrightarrow> classification (node db' ! i) = Some CHANNEL) \<and>
            ((\<exists>k. number_pips (node db ! i) = Some k \<and> k > 1) \<and>
             site_wire_pkey (node db ! i) \<noteq> None
               \<longrightarrow> classification (node db' ! i) = Some EDGES_TO_CHANNEL)"
    if i: "i < length (node db)" for i
  proof -
    define r0 where "r0 = node db ! i"
    have r0: "r0 \<in> set (node db)" unfolding r0_def using i by simp
    have eq: "node db' ! i = r0\<lparr>classification := final_classification acc (initial_row r0)\<rparr>"
      unfolding rows r0_def using i by simp
    have cls: "classification (node db' ! i) = final_classification acc (initial_row r0)"
      unfolding eq by simp
    have same: "node db' ! i = r0\<lparr>classification := classification (node db' ! i)\<rparr>"
      unfolding cls by (rule eq)
    from classify_nodes_row_unambiguous[OF loop assms(2) r0] same
    show ?thesis unfolding cls r0_def[symmetric] by (intro conjI) (elim conjE, assumption)+
  qed
  from len row show ?thesis by blast
qed

lemmas classify_defs = pips_where_def update_classification_def where_null_def where_channel_def
  where_edges_to_channel_def classify_unambiguous_def ambiguous_nodes_def node_pips_def
  wire_pips_def
  classify_nodes_pip_def classify_nodes_neighbor_def classify_nodes_branch_def
  apply_edge_with_mux_def apply_classify_acc_def classify_nodes_def pip_on_wire_def
  empty_database_def

lemma ex_nodes_classified_eq: "classify_nodes ex_nodes = Inr ex_nodes_classified"
  by (simp add: ex_nodes_def ex_nodes_classified_def mk_defs classify_defs)

lemma ex_scenario_c_classified_eq: "classify_nodes ex_scenario_c = Inr ex_scenario_c_classified"
  by (simp add: ex_scenario_c_def ex_scenario_c_classified_def mk_defs classify_defs)

lemma ex_two_pips_classified_eq: "classify_nodes ex_two_pips = Inr ex_two_pips_classified"
  by (simp add: ex_two_pips_def ex_two_pips_classified_def mk_defs classify_defs)

lemma ex_stub_annotated_eq: "count_sites_and_pips_on_nodes ex_stub = Inr ex_stub_annotated"
  by (simp add: ex_stub_def ex_stub_annotated_def mk_defs annotator_defs)

lemma ex_stub_classified_eq: "classify_nodes ex_stub_annotated = Inr ex_stub_classified"
  by (simp add: ex_stub_def ex_stub_annotated_def ex_stub_classified_def mk_defs classify_defs)
lemma count_list_concat_one:
  assumes "x \<in> set xs" "e \<in> set (f x)"
  shows "1 \<le> count_list (concat (map f xs)) e"
  using assms
proof (induction xs)
  case Nil
  then show ?case by simp
next
  case (Cons z zs)
  show ?case
  proof (cases "z = x")
    case True
    have "count_list (f x) e \<noteq> 0" using Cons.prems(2) by (simp add: count_list_0_iff)
    then show ?thesis by (simp add: True)
  next
    case False
    with Cons show ?thesis by simp
  qed
qed

lemma count_list_concat_two:
  assumes "x \<in> set xs" "y \<in> set xs" "x \<noteq> y" "e \<in> set (f x)" "e \<in> set (f y)"
  shows "2 \<le> count_list (concat (map f xs)) e"
  using assms
proof (induction xs)
  case Nil
  then show ?case by simp
next
  case (Cons z zs)
  have "count_list (f x) e \<noteq> 0" "count_list (f y) e \<noteq> 0"
    using Cons.prems(4,5) by (simp_all add: count_list_0_iff)
  then have fx: "0 < count_list (f x) e" and fy: "0 < count_list (f y) e" by simp_all
  consider "z = x" | "z = y" | "z \<noteq> x" "z \<noteq> y" by blast
  then show ?case
  proof cases
    case 1
    then have "y \<in> set zs" using Cons.prems(2,3) by auto
    from count_list_concat_one[where f = f and x = y, OF this Cons.prems(5)] fx
    show ?thesis by (simp add: 1)
  next
    case 2
    then have "x \<in> set zs" using Cons.prems(1,3) by auto
    from count_list_concat_one[where f = f and x = x, OF this Cons.prems(4)] fy
    show ?thesis by (simp add: 2)
  next
    case 3
    then have "x \<in> set zs" "y \<in> set zs" using Cons.prems(1,2) by auto
    from Cons.IH[OF this Cons.prems(3,4,5)] show ?thesis by simp
  qed
qed

lemma opposite_ends:
  fixes s d wa wb :: nat
  assumes "wa = s \<or> wa = d" "wb = s \<or> wb = d" "wb \<noteq> wa"
  shows "(s = wb) \<longleftrightarrow> \<not> (s = wa)"
  using assms by auto

lemma concat_map_cong:
  "(\<And>x. x \<in> set xs \<Longrightarrow> f x = g x) \<Longrightarrow> concat (map f xs) = concat (map g xs)"
  by (induction xs) auto

lemma classify_nodes_new_rows:
  assumes "classify_nodes db = Inr db'"
  shows "edge_with_mux db' = edge_with_mux db @ new_edge_with_mux_rows db"
proof -
  from assms obtain acc where loop: "classify_nodes_loop db (ambiguous_nodes db) empty_acc = Inr acc"
    and db': "db' = apply_classify_acc acc (classify_unambiguous db)"
    by (rule classify_nodes_InrD)
  have pt: "map edge_row (edge_with_mux_of n sw (projr (classify_nodes_neighbor db n))) =
         (case classify_nodes_neighbor db n of
            Inl e \<Rightarrow> []
          | Inr t \<Rightarrow> map edge_row (edge_with_mux_of n sw t))"
    if "(n, sw) \<in> set (ambiguous_nodes db)" for n sw
  proof -
    from classify_nodes_loop_result(4)[OF loop] that
    obtain t where "classify_nodes_neighbor db n = Inr t" by auto
    then show ?thesis by simp
  qed
  have "map edge_row (concat (map (\<lambda>(n, sw). edge_with_mux_of n sw (projr (classify_nodes_neighbor db n)))
          (ambiguous_nodes db))) = new_edge_with_mux_rows db"
    unfolding new_edge_with_mux_rows_def map_concat map_map
  proof (rule concat_map_cong)
    fix x assume x: "x \<in> set (ambiguous_nodes db)"
    obtain n sw where nsw: "x = (n, sw)" by (cases x)
    show "(map edge_row \<circ> (\<lambda>(n, sw). edge_with_mux_of n sw (projr (classify_nodes_neighbor db n)))) x =
          (case x of (n, sw) \<Rightarrow> case classify_nodes_neighbor db n of
            Inl e \<Rightarrow> []
          | Inr t \<Rightarrow> map edge_row (edge_with_mux_of n sw t))"
      using pt[of n sw] x by (simp add: nsw)
  qed
  then have "map edge_row (edge_with_mux_acc acc) = new_edge_with_mux_rows db"
    unfolding classify_nodes_loop_result(3)[OF loop] by (simp add: empty_acc_def)
  then show ?thesis by (simp add: db' apply_classify_acc_edges)
qed

lemma ambiguous_neighbor_facts:
  assumes "distinct (map node_pkey (node db))" "(b, sb) \<in> set (ambiguous_nodes db)"
    "classify_nodes_neighbor db a = Inr t" "t_other_node_pkey t = b"
  shows "t_other_site_wire_pkey t = Some sb" "t_other_number_pips t = Some 1"
proof -
  from ambiguous_nodes_row[OF assms(2)] obtain rb where rb: "rb \<in> set (node db)"
    "node_pkey rb = b" "ambiguous rb" "site_wire_pkey rb = Some sb" by auto
  from classify_nodes_neighbor_row[OF assms(3)] obtain r where r: "r \<in> set (node db)"
    "node_pkey r = t_other_node_pkey t" "site_wire_pkey r = t_other_site_wire_pkey t"
    "number_pips r = t_other_number_pips t" by auto
  have "r = rb" using distinct_pkey_eq[OF assms(1) r(1) rb(1)] r(2) rb(2) assms(4) by simp
  with r rb show "t_other_site_wire_pkey t = Some sb" "t_other_number_pips t = Some 1"
    by (simp_all add: ambiguous_def)
qed

lemma edge_with_mux_node_classification:
  assumes loop: "classify_nodes_loop db (ambiguous_nodes db) empty_acc = Inr acc"
    and dist: "distinct (map node_pkey (node db))"
    and a: "(a, sa) \<in> set (ambiguous_nodes db)"
    and ta: "classify_nodes_neighbor db a = Inr ta"
    and cond: "t_other_site_wire_pkey ta = Some so" "t_other_number_pips ta = Some 1"
    and r0: "r0 \<in> set (node db)" "node_pkey r0 = a"
  shows "final_classification acc (initial_row r0) = Some EDGE_WITH_MUX"
proof -
  from ambiguous_nodes_row[OF a] obtain ra where ra: "ra \<in> set (node db)"
    "node_pkey ra = a" "ambiguous ra" "site_wire_pkey ra = Some sa" by auto
  have not_null: "a \<notin> set (null_nodes acc)"
  proof
    assume "a \<in> set (null_nodes acc)"
    with loop obtain a' sw t where t: "classify_nodes_neighbor db a' = Inr t"
      "t_other_site_wire_pkey t = None" "a = a' \<or> a = t_other_node_pkey t"
      by (rule loop_null_nodesD)
    from t(3) show False
    proof
      assume "a = a'"
      with t(1,2) ta cond(1) show False by simp
    next
      assume other: "a = t_other_node_pkey t"
      from classify_nodes_neighbor_row[OF t(1)] obtain r where r: "r \<in> set (node db)"
        "node_pkey r = t_other_node_pkey t" "site_wire_pkey r = t_other_site_wire_pkey t" by auto
      have "r = ra" using distinct_pkey_eq[OF dist r(1) ra(1)] r(2) ra(2) other by simp
      with r(3) ra(4) t(2) show False by simp
    qed
  qed
  have not_e2c: "a \<notin> set (edges_to_channel acc)"
  proof
    assume "a \<in> set (edges_to_channel acc)"
    with loop obtain sw t where "classify_nodes_neighbor db a = Inr t" "t_other_number_pips t \<noteq> Some 1"
      by (rule loop_edges_to_channelD)
    with ta cond(2) show False by simp
  qed
  have "a \<in> edge_with_mux_nodes acc"
    by (rule loop_edge_with_mux_nodesI(1)[OF loop a ta cond])
  with not_null not_e2c show ?thesis
    by (simp add: final_classification_initial_row r0(2))
qed

text \<open>
  C2, as the code has it.  Let \<open>a\<close> and \<open>b\<close> be visited nodes (site-pin wires \<open>sa\<close> and
  \<open>sb\<close>, PIP count 1) whose traversals lead to each other across the same PIP, found from
  its two different ends.  Then every row of \<open>a\<close> and of \<open>b\<close> ends \<open>EDGE_WITH_MUX\<close>.  The
  table \<^verbatim>\<open>edge_with_mux\<close> gains one row per visited node whose neighbour has a site pin and
  PIP count 1, so the visit of \<open>a\<close> and the visit of \<open>b\<close> each add a row; the two rows are
  equal, the source being the site-pin wire of the node at the PIP's source wire, the
  destination the other one: the pair is recorded twice.
\<close>

theorem classify_nodes_edge_with_mux_pair:
  assumes "classify_nodes db = Inr db'" and "distinct (map node_pkey (node db))"
    and "(a, sa) \<in> set (ambiguous_nodes db)" and "(b, sb) \<in> set (ambiguous_nodes db)"
    and "classify_nodes_neighbor db a = Inr ta" and "t_other_node_pkey ta = b"
    and "classify_nodes_neighbor db b = Inr tb" and "t_other_node_pkey tb = a"
    and "t_pip_pkey tb = t_pip_pkey ta"
    and "t_src_wire_in_tile_pkey tb = t_src_wire_in_tile_pkey ta"
    and "t_dest_wire_in_tile_pkey tb = t_dest_wire_in_tile_pkey ta"
    and "t_wire_in_tile_pkey tb \<noteq> t_wire_in_tile_pkey ta"
  defines "e \<equiv> \<lparr>ewm_src_wire_pkey =
                    (if t_src_wire_in_tile_pkey ta = t_wire_in_tile_pkey ta then sa else sb),
                 ewm_dest_wire_pkey =
                    (if t_src_wire_in_tile_pkey ta = t_wire_in_tile_pkey ta then sb else sa),
                 ewm_pip_in_tile_pkey = t_pip_pkey ta\<rparr>"
  shows "(\<forall>r \<in> set (node db'). node_pkey r = a \<or> node_pkey r = b
            \<longrightarrow> classification r = Some EDGE_WITH_MUX) \<and>
         edge_with_mux db' = edge_with_mux db @ new_edge_with_mux_rows db \<and>
         map edge_row (edge_with_mux_of a sa ta) = [e] \<and>
         map edge_row (edge_with_mux_of b sb tb) = [e] \<and>
         2 \<le> count_list (new_edge_with_mux_rows db) e"
proof -
  note run = assms(1) and dist = assms(2) and a = assms(3) and b = assms(4)
    and ta = assms(5) and tab = assms(6) and tb = assms(7) and tba = assms(8)
    and same = assms(9,10,11) and ends = assms(12)
  from run obtain acc where loop: "classify_nodes_loop db (ambiguous_nodes db) empty_acc = Inr acc"
    and db': "db' = apply_classify_acc acc (classify_unambiguous db)"
    by (rule classify_nodes_InrD)
  note conda = ambiguous_neighbor_facts[OF dist b ta tab]
  note condb = ambiguous_neighbor_facts[OF dist a tb tba]
  have cls: "\<forall>r \<in> set (node db'). node_pkey r = a \<or> node_pkey r = b
            \<longrightarrow> classification r = Some EDGE_WITH_MUX"
  proof (intro ballI impI)
    fix r assume r: "r \<in> set (node db')" and k: "node_pkey r = a \<or> node_pkey r = b"
    from r obtain r0 where r0: "r0 \<in> set (node db)"
      and req: "r = r0\<lparr>classification := final_classification acc (initial_row r0)\<rparr>"
      unfolding classify_nodes_rows[OF loop db'] by auto
    from k have "node_pkey r0 = a \<or> node_pkey r0 = b" by (simp add: req)
    then have "final_classification acc (initial_row r0) = Some EDGE_WITH_MUX"
    proof
      assume "node_pkey r0 = a"
      from edge_with_mux_node_classification[OF loop dist a ta conda r0 this] show ?thesis .
    next
      assume "node_pkey r0 = b"
      from edge_with_mux_node_classification[OF loop dist b tb condb r0 this] show ?thesis .
    qed
    then show "classification r = Some EDGE_WITH_MUX" by (simp add: req)
  qed
  have pa: "classify_nodes_pip db a \<noteq> Inl TypeError" using ta
    by (auto simp: classify_nodes_neighbor_def split: sum.splits)
  from ta obtain p w where pw: "classify_nodes_pip db a = Inr (p, w)"
    and fa: "t_src_wire_in_tile_pkey ta = src_wire_in_tile_pkey p"
      "t_dest_wire_in_tile_pkey ta = dest_wire_in_tile_pkey p"
      "t_wire_in_tile_pkey ta = wire_wire_in_tile_pkey w"
    by (rule classify_nodes_neighbor_InrD)
  from tb obtain p' w' where pw': "classify_nodes_pip db b = Inr (p', w')"
    and fb: "t_src_wire_in_tile_pkey tb = src_wire_in_tile_pkey p'"
      "t_dest_wire_in_tile_pkey tb = dest_wire_in_tile_pkey p'"
      "t_wire_in_tile_pkey tb = wire_wire_in_tile_pkey w'"
    by (rule classify_nodes_neighbor_InrD)
  have "pip_on_wire p (wire_wire_in_tile_pkey w)"
    using classify_nodes_pip_Inr(1)[OF pw] by (simp add: node_pips_iff)
  then have enda: "t_wire_in_tile_pkey ta = t_src_wire_in_tile_pkey ta
                 \<or> t_wire_in_tile_pkey ta = t_dest_wire_in_tile_pkey ta"
    by (auto simp: pip_on_wire_def fa)
  have "pip_on_wire p' (wire_wire_in_tile_pkey w')"
    using classify_nodes_pip_Inr(1)[OF pw'] by (simp add: node_pips_iff)
  then have "t_wire_in_tile_pkey tb = t_src_wire_in_tile_pkey tb
                 \<or> t_wire_in_tile_pkey tb = t_dest_wire_in_tile_pkey tb"
    by (auto simp: pip_on_wire_def fb)
  then have endb: "t_wire_in_tile_pkey tb = t_src_wire_in_tile_pkey ta
                 \<or> t_wire_in_tile_pkey tb = t_dest_wire_in_tile_pkey ta"
    unfolding same(2,3) .
  have opp: "(t_src_wire_in_tile_pkey ta = t_wire_in_tile_pkey tb) \<longleftrightarrow>
             \<not> (t_src_wire_in_tile_pkey ta = t_wire_in_tile_pkey ta)"
    by (rule opposite_ends[OF enda endb ends])
  have ea: "map edge_row (edge_with_mux_of a sa ta) = [e]"
    by (simp add: edge_with_mux_of_def conda edge_row_def e_def)
  have eb: "map edge_row (edge_with_mux_of b sb tb) = [e]"
    by (simp add: edge_with_mux_of_def condb edge_row_def e_def same opp)
  have ne: "(a, sa) \<noteq> (b, sb)"
  proof
    assume "(a, sa) = (b, sb)"
    then have "ta = tb" using ta tb by simp
    with ends show False by simp
  qed
  let ?f = "\<lambda>(n, sw). case classify_nodes_neighbor db n of
                               Inl e \<Rightarrow> []
                             | Inr t \<Rightarrow> map edge_row (edge_with_mux_of n sw t)"
  have "e \<in> set (?f (a, sa))" "e \<in> set (?f (b, sb))"
    using ea eb by (simp_all add: ta tb)
  from count_list_concat_two[of "(a, sa)" _ "(b, sb)" e ?f, OF a b ne this]
  have cnt: "2 \<le> count_list (new_edge_with_mux_rows db) e"
    unfolding new_edge_with_mux_rows_def .
  show ?thesis
    using cls classify_nodes_new_rows[OF run] ea eb cnt by (intro conjI)
qed

subsection \<open>The PIP count of a neighbour\<close>

lemma distinct_filter_eq:
  "distinct ks \<Longrightarrow> k0 \<in> set ks \<Longrightarrow> filter (\<lambda>k. k = k0) ks = [k0]"
proof (induction ks)
  case Nil
  then show ?case by simp
next
  case (Cons k ks)
  show ?case
  proof (cases "k = k0")
    case True
    then have "k0 \<notin> set ks" using Cons.prems(1) by simp
    then have "filter (\<lambda>k. k = k0) ks = []" by (auto simp: filter_empty_conv)
    then show ?thesis using True by simp
  next
    case False
    with Cons show ?thesis by simp
  qed
qed

lemma group_count_lookup:
  assumes "k0 \<in> key ` set rows"
  shows "first_row (map snd (filter (\<lambda>(k, c). k = k0) (group_count key rows))) =
           Some (length (filter (\<lambda>r. key r = k0) rows))"
proof -
  have "filter (\<lambda>k. k = k0) (remdups (map key rows)) = [k0]"
    using assms by (intro distinct_filter_eq) simp_all
  then show ?thesis
    by (simp add: group_count_def filter_map comp_def first_row_def)
qed

lemma pip_wires_iff:
  "(p, w) \<in> set (pip_wires db) \<longleftrightarrow>
     p \<in> set (pip_in_tile db) \<and> w \<in> set (wire db) \<and> pip_on_wire p (wire_wire_in_tile_pkey w)"
  by (auto simp: pip_wires_def)

lemma annotated_number_pips:
  assumes run: "count_sites_and_pips_on_nodes db0 = Inr db"
    and r: "r \<in> set (node db)"
    and pw: "(p, w) \<in> set (pip_wires db)" "wire_node_pkey w = Some (node_pkey r)"
  shows "number_pips r =
           Some (int (length (filter (\<lambda>(p, w). wire_node_pkey w = Some (node_pkey r)) (pip_wires db))))"
    and "\<exists>k. number_pips r = Some k \<and> 1 \<le> k"
proof -
  let ?db1 = "db0\<lparr>node := map (\<lambda>r. r\<lparr>site_wire_pkey := site_wire_of db0 (node_pkey r)\<rparr>) (node db0)\<rparr>"
  have tables: "wire db = wire db0" "pip_in_tile db = pip_in_tile db0"
    using count_sites_tables(1,2)[OF run] .
  have pws: "pip_wires ?db1 = pip_wires db" "pip_wires db0 = pip_wires db"
    by (simp_all add: pip_wires_def tables)
  have npc: "node_pip_count ?db1 = group_count (\<lambda>(p, w). wire_node_pkey w) (pip_wires db)"
    by (simp add: node_pip_count_def pws)
  from run r obtain r1 where r1: "r = set_number_pips (node_pip_count ?db1) r1"
    by (auto simp: count_sites_result Let_def)
  have key: "node_pkey r1 = node_pkey r" by (simp add: r1 set_number_pips_def)
  have grp: "Some (node_pkey r1) \<in> (\<lambda>(p, w). wire_node_pkey w) ` set (pip_wires db)"
    using pw unfolding key by force
  then have "Some (node_pkey r1) \<in> set (map fst (node_pip_count ?db1))"
    by (simp add: npc group_count_def)
  then have "number_pips r =
      map_option int (first_row (map snd (filter (\<lambda>(k, c). k = Some (node_pkey r1)) (node_pip_count ?db1))))"
    unfolding r1 by (simp add: set_number_pips_def)
  also have "\<dots> = Some (int (length (filter (\<lambda>x. (case x of (p, w) \<Rightarrow> wire_node_pkey w) = Some (node_pkey r1))
                                   (pip_wires db))))"
    unfolding npc group_count_lookup[OF grp] by simp
  finally show eq: "number_pips r =
           Some (int (length (filter (\<lambda>(p, w). wire_node_pkey w = Some (node_pkey r)) (pip_wires db))))"
    by (simp add: key case_prod_unfold)
  have "(p, w) \<in> set (filter (\<lambda>(p, w). wire_node_pkey w = Some (node_pkey r)) (pip_wires db))"
    using pw by simp
  then have "filter (\<lambda>(p, w). wire_node_pkey w = Some (node_pkey r)) (pip_wires db) \<noteq> []"
    by (metis empty_iff empty_set)
  then have "1 \<le> length (filter (\<lambda>(p, w). wire_node_pkey w = Some (node_pkey r)) (pip_wires db))"
    by (simp add: Suc_le_eq)
  with eq show "\<exists>k. number_pips r = Some k \<and> 1 \<le> k" by simp
qed

lemma annotated_neighbor_pips:
  assumes run: "count_sites_and_pips_on_nodes db0 = Inr db"
    and t: "classify_nodes_neighbor db a = Inr t"
  shows "\<exists>k. t_other_number_pips t = Some k \<and> 1 \<le> k"
proof -
  from t obtain p w w' r where pw: "classify_nodes_pip db a = Inr (p, w)"
    and ow: "t_other_wire t = (if src_wire_in_tile_pkey p = wire_wire_in_tile_pkey w
                       then dest_wire_in_tile_pkey p else src_wire_in_tile_pkey p)"
    and ws: "filter (\<lambda>w'. wire_wire_in_tile_pkey w' = t_other_wire t
                 \<and> wire_phy_tile_pkey w' = wire_phy_tile_pkey w) (wire db) = [w']"
    and m: "wire_node_pkey w' = Some (t_other_node_pkey t)"
    and rs: "filter (\<lambda>r. node_pkey r = t_other_node_pkey t) (node db) = [r]"
    and np: "t_other_number_pips t = number_pips r"
    by (rule classify_nodes_neighbor_InrD)
  have "w' \<in> set (filter (\<lambda>w'. wire_wire_in_tile_pkey w' = t_other_wire t
                 \<and> wire_phy_tile_pkey w' = wire_phy_tile_pkey w) (wire db))"
    unfolding ws by simp
  then have w': "w' \<in> set (wire db)" "wire_wire_in_tile_pkey w' = t_other_wire t" by simp_all
  have "r \<in> set (filter (\<lambda>r. node_pkey r = t_other_node_pkey t) (node db))"
    unfolding rs by simp
  then have r: "r \<in> set (node db)" "node_pkey r = t_other_node_pkey t" by simp_all
  from classify_nodes_pip_Inr(1)[OF pw]
  have p: "p \<in> set (pip_in_tile db)" "pip_on_wire p (wire_wire_in_tile_pkey w)"
    by (simp_all add: node_pips_iff)
  have "pip_on_wire p (wire_wire_in_tile_pkey w')"
    using p(2) unfolding w'(2) ow pip_on_wire_def by auto
  with p(1) w'(1) have "(p, w') \<in> set (pip_wires db)" by (simp add: pip_wires_iff)
  from annotated_number_pips(2)[OF run r(1) this] m r(2) np show ?thesis by simp
qed


theorem classify_nodes_unambiguous_witness:
  "classify_nodes ex_nodes = Inr ex_nodes_classified \<and>
   distinct (map node_pkey (node ex_nodes)) \<and>
   length (node ex_nodes_classified) = length (node ex_nodes) \<and>
   number_pips (node ex_nodes ! 1) = Some 3 \<and>
   site_wire_pkey (node ex_nodes ! 1) = None \<and>
   classification (node ex_nodes_classified ! 1) = Some CHANNEL \<and>
   number_pips (node ex_nodes ! 3) = Some 2 \<and>
   site_wire_pkey (node ex_nodes ! 3) = Some 4 \<and>
   classification (node ex_nodes_classified ! 3) = Some EDGES_TO_CHANNEL \<and>
   number_pips (node ex_nodes ! 4) = Some 0 \<and>
   site_wire_pkey (node ex_nodes ! 4) = Some 5 \<and>
   classification (node ex_nodes_classified ! 4) = Some NULL \<and>
   number_pips (node ex_nodes ! 5) = Some 0 \<and>
   site_wire_pkey (node ex_nodes ! 5) = None \<and>
   classification (node ex_nodes_classified ! 5) = Some NULL"
proof -
  have dist: "distinct (map node_pkey (node ex_nodes))"
    by (simp add: ex_nodes_def mk_defs)
  have len: "length (node ex_nodes) = 6"
    by (simp add: ex_nodes_def)
  have facts:
    "number_pips (node ex_nodes ! 1) = Some 3"
    "site_wire_pkey (node ex_nodes ! 1) = None"
    "number_pips (node ex_nodes ! 3) = Some 2"
    "site_wire_pkey (node ex_nodes ! 3) = Some 4"
    "number_pips (node ex_nodes ! 4) = Some 0"
    "site_wire_pkey (node ex_nodes ! 4) = Some 5"
    "number_pips (node ex_nodes ! 5) = Some 0"
    "site_wire_pkey (node ex_nodes ! 5) = None"
    by (simp_all add: ex_nodes_def mk_defs)
  note inst = classify_nodes_unambiguous[OF ex_nodes_classified_eq dist]
  from inst have l: "length (node ex_nodes_classified) = length (node ex_nodes)"
    by (rule conjunct1)
  from inst have all: "\<forall>i < length (node ex_nodes).
      ((\<exists>k. number_pips (node ex_nodes ! i) = Some k \<and> k > 1) \<and>
       site_wire_pkey (node ex_nodes ! i) = None
         \<longrightarrow> classification (node ex_nodes_classified ! i) = Some CHANNEL) \<and>
      ((\<exists>k. number_pips (node ex_nodes ! i) = Some k \<and> k > 1) \<and>
       site_wire_pkey (node ex_nodes ! i) \<noteq> None
         \<longrightarrow> classification (node ex_nodes_classified ! i) = Some EDGES_TO_CHANNEL) \<and>
      ((site_wire_pkey (node ex_nodes ! i) = None \<and>
          (\<exists>k. number_pips (node ex_nodes ! i) = Some k \<and> k \<le> 1)) \<or>
       (site_wire_pkey (node ex_nodes ! i) \<noteq> None \<and> number_pips (node ex_nodes ! i) = Some 0)
         \<longrightarrow> classification (node ex_nodes_classified ! i) = Some NULL)"
    by blast
  have c1: "classification (node ex_nodes_classified ! 1) = Some CHANNEL"
    using all[rule_format, of 1] facts(1,2) len by simp
  have c3: "classification (node ex_nodes_classified ! 3) = Some EDGES_TO_CHANNEL"
    using all[rule_format, of 3] facts(3,4) len by simp
  have c4: "classification (node ex_nodes_classified ! 4) = Some NULL"
    using all[rule_format, of 4] facts(5,6) len by simp
  have c5: "classification (node ex_nodes_classified ! 5) = Some NULL"
    using all[rule_format, of 5] facts(7,8) len by simp
  show ?thesis
    using ex_nodes_classified_eq dist l facts c1 c3 c4 c5 by (intro conjI)
qed

text \<open>
  C2 as the specification states it fails on its own scenario C: the two nodes are
  visited one after the other, each visit appends an entry, and the table ends with two
  rows for the one pair.
\<close>

theorem classify_nodes_scenario_c_two_records:
  "ambiguous_nodes ex_scenario_c = [(1, 1), (2, 2)] \<and>
   classify_nodes_neighbor ex_scenario_c 1 = Inr ex_scenario_c_visit_1 \<and>
   classify_nodes_neighbor ex_scenario_c 2 = Inr ex_scenario_c_visit_2 \<and>
   classify_nodes ex_scenario_c = Inr ex_scenario_c_classified \<and>
   edge_with_mux ex_scenario_c = [] \<and>
   edge_with_mux ex_scenario_c_classified =
     [\<lparr>ewm_src_wire_pkey = 1, ewm_dest_wire_pkey = 2, ewm_pip_in_tile_pkey = 1\<rparr>,
      \<lparr>ewm_src_wire_pkey = 1, ewm_dest_wire_pkey = 2, ewm_pip_in_tile_pkey = 1\<rparr>] \<and>
   length (edge_with_mux ex_scenario_c_classified) \<noteq> 1"
proof -
  have "ambiguous_nodes ex_scenario_c = [(1, 1), (2, 2)]"
    by (simp add: ex_scenario_c_def mk_defs classify_defs)
  moreover have "classify_nodes_neighbor ex_scenario_c 1 = Inr ex_scenario_c_visit_1"
    by (simp add: ex_scenario_c_def ex_scenario_c_visit_1_def mk_defs classify_defs)
  moreover have "classify_nodes_neighbor ex_scenario_c 2 = Inr ex_scenario_c_visit_2"
    by (simp add: ex_scenario_c_def ex_scenario_c_visit_2_def mk_defs classify_defs)
  moreover have "edge_with_mux ex_scenario_c = []"
    by (simp add: ex_scenario_c_def empty_database_def)
  moreover have "edge_with_mux ex_scenario_c_classified =
     [\<lparr>ewm_src_wire_pkey = 1, ewm_dest_wire_pkey = 2, ewm_pip_in_tile_pkey = 1\<rparr>,
      \<lparr>ewm_src_wire_pkey = 1, ewm_dest_wire_pkey = 2, ewm_pip_in_tile_pkey = 1\<rparr>]"
    by (simp add: ex_scenario_c_classified_def)
  ultimately show ?thesis using ex_scenario_c_classified_eq by simp
qed

theorem classify_nodes_edge_with_mux_pair_witness:
  "classify_nodes ex_scenario_c = Inr ex_scenario_c_classified \<and>
   distinct (map node_pkey (node ex_scenario_c)) \<and>
   (1, 1) \<in> set (ambiguous_nodes ex_scenario_c) \<and>
   (2, 2) \<in> set (ambiguous_nodes ex_scenario_c) \<and>
   classify_nodes_neighbor ex_scenario_c 1 = Inr ex_scenario_c_visit_1 \<and>
   classify_nodes_neighbor ex_scenario_c 2 = Inr ex_scenario_c_visit_2 \<and>
   t_wire_in_tile_pkey ex_scenario_c_visit_2 \<noteq> t_wire_in_tile_pkey ex_scenario_c_visit_1 \<and>
   edge_with_mux ex_scenario_c_classified =
     edge_with_mux ex_scenario_c @ new_edge_with_mux_rows ex_scenario_c \<and>
   2 \<le> count_list (new_edge_with_mux_rows ex_scenario_c)
         \<lparr>ewm_src_wire_pkey = 1, ewm_dest_wire_pkey = 2, ewm_pip_in_tile_pkey = 1\<rparr>"
proof -
  have dist: "distinct (map node_pkey (node ex_scenario_c))"
    by (simp add: ex_scenario_c_def mk_defs)
  have amb: "(1, 1) \<in> set (ambiguous_nodes ex_scenario_c)"
    "(2, 2) \<in> set (ambiguous_nodes ex_scenario_c)"
    by (simp_all add: ex_scenario_c_def mk_defs classify_defs)
  have v1: "classify_nodes_neighbor ex_scenario_c 1 = Inr ex_scenario_c_visit_1"
    by (simp add: ex_scenario_c_def ex_scenario_c_visit_1_def mk_defs classify_defs)
  have v2: "classify_nodes_neighbor ex_scenario_c 2 = Inr ex_scenario_c_visit_2"
    by (simp add: ex_scenario_c_def ex_scenario_c_visit_2_def mk_defs classify_defs)
  have f: "t_other_node_pkey ex_scenario_c_visit_1 = 2" "t_other_node_pkey ex_scenario_c_visit_2 = 1"
    "t_pip_pkey ex_scenario_c_visit_2 = t_pip_pkey ex_scenario_c_visit_1"
    "t_src_wire_in_tile_pkey ex_scenario_c_visit_2 = t_src_wire_in_tile_pkey ex_scenario_c_visit_1"
    "t_dest_wire_in_tile_pkey ex_scenario_c_visit_2 = t_dest_wire_in_tile_pkey ex_scenario_c_visit_1"
    "t_wire_in_tile_pkey ex_scenario_c_visit_2 \<noteq> t_wire_in_tile_pkey ex_scenario_c_visit_1"
    by (simp_all add: ex_scenario_c_visit_1_def ex_scenario_c_visit_2_def)
  note inst = classify_nodes_edge_with_mux_pair[OF ex_scenario_c_classified_eq dist amb v1 f(1) v2 f(2-6)]
  have rows: "edge_with_mux ex_scenario_c_classified =
     edge_with_mux ex_scenario_c @ new_edge_with_mux_rows ex_scenario_c"
    using inst by (elim conjE)
  have "2 \<le> count_list (new_edge_with_mux_rows ex_scenario_c)
     \<lparr>ewm_src_wire_pkey =
         (if t_src_wire_in_tile_pkey ex_scenario_c_visit_1 = t_wire_in_tile_pkey ex_scenario_c_visit_1
          then 1 else 2),
      ewm_dest_wire_pkey =
         (if t_src_wire_in_tile_pkey ex_scenario_c_visit_1 = t_wire_in_tile_pkey ex_scenario_c_visit_1
          then 2 else 1),
      ewm_pip_in_tile_pkey = t_pip_pkey ex_scenario_c_visit_1\<rparr>"
    using inst by (elim conjE)
  then have cnt: "2 \<le> count_list (new_edge_with_mux_rows ex_scenario_c)
         \<lparr>ewm_src_wire_pkey = 1, ewm_dest_wire_pkey = 2, ewm_pip_in_tile_pkey = 1\<rparr>"
    by (simp add: ex_scenario_c_visit_1_def)
  show ?thesis
    using ex_scenario_c_classified_eq dist amb v1 v2 f(6) rows cnt by (intro conjI)
qed

subsection \<open>The join of the annotator and the join of the traversal\<close>

lemma sum_list_swap:
  fixes f :: "'a \<Rightarrow> 'b \<Rightarrow> nat"
  shows "sum_list (map (\<lambda>x. sum_list (map (f x) ys)) xs) =
         sum_list (map (\<lambda>y. sum_list (map (\<lambda>x. f x y) xs)) ys)"
  by (induction xs) (simp_all add: sum_list_addf)

lemma length_filter_sum:
  "length (filter P xs) = sum_list (map (\<lambda>x. if P x then 1 else 0) xs)"
  by (induction xs) simp_all

lemma sum_list_filter_if:
  fixes g :: "'a \<Rightarrow> nat"
  shows "sum_list (map g (filter P xs)) = sum_list (map (\<lambda>x. if P x then g x else 0) xs)"
  by (induction xs) simp_all

lemma length_concat_sum:
  "length (concat (map F xs)) = sum_list (map (\<lambda>x. length (F x)) xs)"
  by (induction xs) simp_all

lemma length_filter_concat_sum:
  "length (filter Q (concat (map F xs))) = sum_list (map (\<lambda>x. length (filter Q (F x))) xs)"
  by (induction xs) simp_all

lemma length_filter_two:
  assumes "\<And>x. R x \<longleftrightarrow> P x \<or> Q x" "\<And>x. \<not> (P x \<and> Q x)"
  shows "length (filter P xs) + length (filter Q xs) = length (filter R xs)"
  using assms by (induction xs) auto

lemma length_wire_pips:
  "length (wire_pips db wt) = length (filter (\<lambda>p. pip_on_wire p wt) (pip_in_tile db))"
  unfolding wire_pips_def length_append
  by (rule length_filter_two) (auto simp: pip_on_wire_def)

lemma length_node_pips:
  "length (node_pips db n) =
     length (filter (\<lambda>(p, w). wire_node_pkey w = Some n) (pip_wires db))"
proof -
  define f :: "pip_in_tile_row \<Rightarrow> wire_row \<Rightarrow> nat"
    where "f p w = (if wire_node_pkey w = Some n \<and> pip_on_wire p (wire_wire_in_tile_pkey w)
                    then 1 else 0)" for p w
  have "length (node_pips db n) =
      sum_list (map (\<lambda>w. length (wire_pips db (wire_wire_in_tile_pkey w)))
                  (filter (\<lambda>w. wire_node_pkey w = Some n) (wire db)))"
    unfolding node_pips_def length_concat_sum by simp
  also have "\<dots> = sum_list (map (\<lambda>w. if wire_node_pkey w = Some n
                 then length (wire_pips db (wire_wire_in_tile_pkey w)) else 0) (wire db))"
    by (rule sum_list_filter_if)
  also have "\<dots> = sum_list (map (\<lambda>w. sum_list (map (\<lambda>p. f p w) (pip_in_tile db))) (wire db))"
    by (rule arg_cong[where f = sum_list], rule map_cong[OF refl])
       (simp add: length_wire_pips length_filter_sum f_def)
  finally have L: "length (node_pips db n) =
      sum_list (map (\<lambda>w. sum_list (map (\<lambda>p. f p w) (pip_in_tile db))) (wire db))" .
  have R: "length (filter (\<lambda>(p, w). wire_node_pkey w = Some n) (pip_wires db)) =
      sum_list (map (\<lambda>p. sum_list (map (f p) (wire db))) (pip_in_tile db))"
    unfolding pip_wires_def length_filter_concat_sum
    by (rule arg_cong[where f = sum_list], rule map_cong[OF refl],
        rule arg_cong[where f = sum_list], rule map_cong[OF refl])
       (simp add: f_def)
  show ?thesis unfolding L R by (rule sum_list_swap[symmetric])
qed

text \<open>
  On the annotator's output a node with PIP count 1 has at most one row in the join of
  the traversal: the count is the number of rows of the same join.
\<close>

lemma annotated_ambiguous_pips:
  assumes run: "count_sites_and_pips_on_nodes db0 = Inr db"
    and amb: "(n, sw) \<in> set (ambiguous_nodes db)"
  shows "length (node_pips db n) \<le> 1"
proof (cases "node_pips db n")
  case Nil
  then show ?thesis by simp
next
  case (Cons pw rest)
  obtain p w where pw: "pw = (p, w)" by (cases pw)
  from ambiguous_nodes_row[OF amb] obtain r where r: "r \<in> set (node db)" "node_pkey r = n"
    and one: "number_pips r = Some 1"
    by (auto simp: ambiguous_def)
  have "(p, w) \<in> set (node_pips db n)" unfolding Cons pw by simp
  then have m: "(p, w) \<in> set (pip_wires db)" "wire_node_pkey w = Some (node_pkey r)"
    by (simp_all add: node_pips_iff pip_wires_iff r(2))
  from annotated_number_pips(1)[OF run r(1) m] one
  have "length (filter (\<lambda>(p, w). wire_node_pkey w = Some n) (pip_wires db)) = 1"
    by (simp add: r(2))
  then show ?thesis by (simp add: length_node_pips)
qed

subsection \<open>When the traversal stops the run\<close>

lemma classify_nodes_abort:
  assumes "(n, sw) \<in> set (ambiguous_nodes db)" "classify_nodes_neighbor db n = Inl e"
  shows "\<exists>e'. classify_nodes db = Inl e'"
proof (cases "classify_nodes db")
  case (Inl e')
  then show ?thesis by blast
next
  case (Inr db')
  then obtain acc where "classify_nodes_loop db (ambiguous_nodes db) empty_acc = Inr acc"
    by (rule classify_nodes_InrD)
  from classify_nodes_loop_result(4)[OF this] assms show ?thesis by auto
qed

lemma classify_nodes_total:
  assumes "\<forall>(n, sw) \<in> set (ambiguous_nodes db). \<exists>t. classify_nodes_neighbor db n = Inr t"
  shows "\<exists>db'. classify_nodes db = Inr db'"
proof -
  from classify_nodes_loop_total[OF assms]
  obtain acc where "classify_nodes_loop db (ambiguous_nodes db) empty_acc = Inr acc" by blast
  then show ?thesis by (simp add: classify_nodes_eq)
qed

text \<open>No matching PIP: the unpacking of \<^verbatim>\<open>None\<close> stops the run.\<close>

lemma classify_nodes_neighbor_no_pip:
  "node_pips db n = [] \<Longrightarrow> classify_nodes_neighbor db n = Inl TypeError"
  by (simp add: classify_nodes_neighbor_def classify_nodes_pip_empty)

text \<open>
  One matching PIP or more: the first row is taken.  The assertion after the
  \<^verbatim>\<open>LIMIT 1\<close> query never fails, however many rows match.
\<close>

lemma classify_nodes_pip_first:
  "node_pips db n \<noteq> [] \<Longrightarrow> classify_nodes_pip db n = Inr (hd (node_pips db n))"
proof -
  assume "node_pips db n \<noteq> []"
  then obtain p w xs where "node_pips db n = (p, w) # xs"
    by (cases "node_pips db n") auto
  then show ?thesis using classify_nodes_pip_nonempty[of db n p w xs] by simp
qed

lemma classify_nodes_pip_never_asserts:
  "classify_nodes_pip db n \<noteq> Inl AssertionError"
  by (cases "node_pips db n = []")
     (simp_all add: classify_nodes_pip_empty classify_nodes_pip_first)

text \<open>No wire, or more than one, on the far side of the PIP stops the run.\<close>

lemma classify_nodes_neighbor_wires:
  assumes "classify_nodes_pip db n = Inr (p, w)"
  defines "ws \<equiv> filter (\<lambda>w'. wire_wire_in_tile_pkey w' =
                    (if src_wire_in_tile_pkey p = wire_wire_in_tile_pkey w
                     then dest_wire_in_tile_pkey p else src_wire_in_tile_pkey p)
                 \<and> wire_phy_tile_pkey w' = wire_phy_tile_pkey w) (wire db)"
  shows "ws = [] \<Longrightarrow> classify_nodes_neighbor db n = Inl TypeError"
    and "1 < length ws \<Longrightarrow> classify_nodes_neighbor db n = Inl AssertionError"
proof -
  assume "ws = []"
  then show "classify_nodes_neighbor db n = Inl TypeError"
    unfolding ws_def by (simp add: classify_nodes_neighbor_def assms(1))
next
  assume "1 < length ws"
  then obtain x y zs where "ws = x # y # zs"
    by (cases ws; cases "tl ws") auto
  then show "classify_nodes_neighbor db n = Inl AssertionError"
    unfolding ws_def by (simp add: classify_nodes_neighbor_def assms(1))
qed

text \<open>
  Exactly one row in the join: the traversal of the node returns precisely when it finds
  one neighbour node on the far side.
\<close>

lemma classify_nodes_neighbor_unique:
  assumes "length (node_pips db n) \<le> 1"
  shows "traversal_unique db n \<longleftrightarrow> (\<exists>t. classify_nodes_neighbor db n = Inr t)"
proof (cases "node_pips db n")
  case Nil
  then show ?thesis
    by (simp add: traversal_unique_def classify_nodes_neighbor_def classify_nodes_pip_empty)
next
  case (Cons pw rest)
  obtain p w where pw: "pw = (p, w)" by (cases pw)
  have rest: "rest = []" using assms Cons by simp
  have pip: "classify_nodes_pip db n = Inr (p, w)"
    using classify_nodes_pip_nonempty[of db n p w rest] Cons pw by simp
  show ?thesis
    unfolding traversal_unique_def classify_nodes_neighbor_def Cons pw rest pip other_wires_def
    by (auto simp: Let_def split: list.splits option.splits)
qed

lemma classify_nodes_returns_iff:
  "(\<exists>db'. classify_nodes db = Inr db') \<longleftrightarrow>
   (\<forall>(n, sw) \<in> set (ambiguous_nodes db). \<exists>t. classify_nodes_neighbor db n = Inr t)"
proof
  assume "\<exists>db'. classify_nodes db = Inr db'"
  then obtain db' where ret: "classify_nodes db = Inr db'" ..
  show "\<forall>(n, sw) \<in> set (ambiguous_nodes db). \<exists>t. classify_nodes_neighbor db n = Inr t"
  proof (intro ballI, unfold split_paired_all prod.case)
    fix n sw assume amb: "(n, sw) \<in> set (ambiguous_nodes db)"
    show "\<exists>t. classify_nodes_neighbor db n = Inr t"
    proof (cases "classify_nodes_neighbor db n")
      case (Inl e)
      from classify_nodes_abort[OF amb Inl] ret show ?thesis by simp
    next
      case (Inr t)
      then show ?thesis by blast
    qed
  qed
next
  assume "\<forall>(n, sw) \<in> set (ambiguous_nodes db). \<exists>t. classify_nodes_neighbor db n = Inr t"
  then show "\<exists>db'. classify_nodes db = Inr db'" by (rule classify_nodes_total)
qed

lemma ex_dangling_annotated_eq:
  "count_sites_and_pips_on_nodes ex_dangling = Inr ex_dangling_annotated"
  by (simp add: ex_dangling_def ex_dangling_annotated_def mk_defs annotator_defs)

text \<open>
  Outside the pipeline the query's \<^verbatim>\<open>LIMIT 1\<close> hides further matching PIPs from the
  assertion \<^verbatim>\<open>assert c.fetchone() is None, node\<close> that follows it.  The node table of
  \<open>ex_two_pips\<close> says PIP count 1 for a node with two PIPs on its wire; no run of the
  annotator writes such a table (\<open>annotated_ambiguous_pips\<close>).  On it the traversal takes the
  first row and the classifier returns.
\<close>

lemma classify_nodes_limit_one:
  "ambiguous_nodes ex_two_pips = [(1, 1)] \<and>
   length (node_pips ex_two_pips 1) = 2 \<and>
   classify_nodes_pip ex_two_pips 1 = Inr (mk_pip 1 1 2, mk_wire 1 (Some 1) 1 1) \<and>
   classify_nodes ex_two_pips = Inr ex_two_pips_classified"
proof -
  have "ambiguous_nodes ex_two_pips = [(1, 1)]"
    by (simp add: ex_two_pips_def mk_defs classify_defs)
  moreover have "length (node_pips ex_two_pips 1) = 2"
    by (simp add: ex_two_pips_def mk_defs classify_defs)
  moreover have "classify_nodes_pip ex_two_pips 1 = Inr (mk_pip 1 1 2, mk_wire 1 (Some 1) 1 1)"
    by (simp add: ex_two_pips_def mk_defs classify_defs)
  ultimately show ?thesis using ex_two_pips_classified_eq by simp
qed

text \<open>
  C3.  The database is the annotator's output.  For every ambiguous node (site-pin wire
  present, PIP count 1) the join of the traversal has at most one row, since the
  annotator's count is the number of rows of that same join; several matching PIPs do not
  occur.  The classifier returns exactly when for every ambiguous node the traversal finds
  exactly one matching directional non-pseudo PIP and exactly one neighbour node on its
  far side (\<open>traversal_unique\<close>); it aborts exactly when for some ambiguous node it does
  not: no matching PIP, no wire or several on the far side, a far-side wire without a
  node, or no row or several for that node.
\<close>

theorem classify_nodes_traversal_exactly_one:
  assumes "count_sites_and_pips_on_nodes db0 = Inr db"
  shows "(\<forall>(n, sw) \<in> set (ambiguous_nodes db). length (node_pips db n) \<le> 1) \<and>
         ((\<exists>db'. classify_nodes db = Inr db') \<longleftrightarrow>
            (\<forall>(n, sw) \<in> set (ambiguous_nodes db). traversal_unique db n)) \<and>
         ((\<exists>e. classify_nodes db = Inl e) \<longleftrightarrow>
            (\<exists>(n, sw) \<in> set (ambiguous_nodes db). \<not> traversal_unique db n))"
proof -
  have le: "length (node_pips db n) \<le> 1" if "(n, sw) \<in> set (ambiguous_nodes db)" for n sw
    using annotated_ambiguous_pips[OF assms that] .
  have u: "traversal_unique db n \<longleftrightarrow> (\<exists>t. classify_nodes_neighbor db n = Inr t)"
    if "(n, sw) \<in> set (ambiguous_nodes db)" for n sw
    using classify_nodes_neighbor_unique[OF le[OF that]] .
  have 1: "\<forall>(n, sw) \<in> set (ambiguous_nodes db). length (node_pips db n) \<le> 1"
    using le by blast
  have 2: "(\<exists>db'. classify_nodes db = Inr db') \<longleftrightarrow>
            (\<forall>(n, sw) \<in> set (ambiguous_nodes db). traversal_unique db n)"
    unfolding classify_nodes_returns_iff using u by blast
  have "(\<exists>e. classify_nodes db = Inl e) \<longleftrightarrow> \<not> (\<exists>db'. classify_nodes db = Inr db')"
    by (cases "classify_nodes db") simp_all
  then have 3: "(\<exists>e. classify_nodes db = Inl e) \<longleftrightarrow>
            (\<exists>(n, sw) \<in> set (ambiguous_nodes db). \<not> traversal_unique db n)"
    unfolding 2 by blast
  from 1 2 3 show ?thesis by (intro conjI)
qed

theorem classify_nodes_traversal_exactly_one_witness:
  "count_sites_and_pips_on_nodes ex_stub = Inr ex_stub_annotated \<and>
   ambiguous_nodes ex_stub_annotated = [(1, 1)] \<and>
   length (node_pips ex_stub_annotated 1) = 1 \<and>
   traversal_unique ex_stub_annotated 1 \<and>
   (\<exists>db'. classify_nodes ex_stub_annotated = Inr db') \<and>
   count_sites_and_pips_on_nodes ex_dangling = Inr ex_dangling_annotated \<and>
   ambiguous_nodes ex_dangling_annotated = [(1, 1)] \<and>
   length (node_pips ex_dangling_annotated 1) = 1 \<and>
   \<not> traversal_unique ex_dangling_annotated 1 \<and>
   (\<exists>e. classify_nodes ex_dangling_annotated = Inl e)"
proof -
  have a1: "ambiguous_nodes ex_stub_annotated = [(1, 1)]"
    by (simp add: ex_stub_def ex_stub_annotated_def mk_defs classify_defs)
  have l1: "length (node_pips ex_stub_annotated 1) = 1"
    by (simp add: ex_stub_def ex_stub_annotated_def mk_defs classify_defs)
  have u1: "traversal_unique ex_stub_annotated 1"
    by (simp add: traversal_unique_def other_wires_def ex_stub_def ex_stub_annotated_def mk_defs
        classify_defs)
  have a2: "ambiguous_nodes ex_dangling_annotated = [(1, 1)]"
    by (simp add: ex_dangling_def ex_dangling_annotated_def mk_defs classify_defs)
  have l2: "length (node_pips ex_dangling_annotated 1) = 1"
    by (simp add: ex_dangling_def ex_dangling_annotated_def mk_defs classify_defs)
  have u2: "\<not> traversal_unique ex_dangling_annotated 1"
    by (simp add: traversal_unique_def other_wires_def ex_dangling_def ex_dangling_annotated_def
        mk_defs classify_defs)
  have r1: "\<exists>db'. classify_nodes ex_stub_annotated = Inr db'"
    using classify_nodes_traversal_exactly_one[OF ex_stub_annotated_eq] a1 u1 by simp
  have r2: "\<exists>e. classify_nodes ex_dangling_annotated = Inl e"
    using classify_nodes_traversal_exactly_one[OF ex_dangling_annotated_eq] a2 u2 by simp
  show ?thesis
    using ex_stub_annotated_eq a1 l1 u1 r1 ex_dangling_annotated_eq a2 l2 u2 r2 by (intro conjI)
qed

subsection \<open>Stub pairs\<close>

lemma classify_nodes_null_pair:
  assumes run: "classify_nodes db = Inr db'"
    and a: "(a, sa) \<in> set (ambiguous_nodes db)"
    and t: "classify_nodes_neighbor db a = Inr t"
    and cond: "t_other_site_wire_pkey t = None" "t_other_number_pips t = Some 1"
    and r: "r \<in> set (node db')" "node_pkey r = a \<or> node_pkey r = t_other_node_pkey t"
  shows "classification r = Some NULL"
proof -
  from run obtain acc where loop: "classify_nodes_loop db (ambiguous_nodes db) empty_acc = Inr acc"
    and db': "db' = apply_classify_acc acc (classify_unambiguous db)"
    by (rule classify_nodes_InrD)
  from r(1) obtain r0 where req: "r = r0\<lparr>classification := final_classification acc (initial_row r0)\<rparr>"
    unfolding classify_nodes_rows[OF loop db'] by auto
  have "node_pkey r0 \<in> set (null_nodes acc)"
    using loop_null_nodesI[OF loop a t cond] r(2) by (auto simp: req)
  then show ?thesis by (simp add: req final_classification_initial_row)
qed

text \<open>
  C4.  The database is the annotator's output.  Let \<open>a\<close> be a visited node (site-pin wire,
  PIP count 1) whose traversal reaches a neighbour with no site-pin wire and PIP count at
  most 1.  Then, when \<open>classify_nodes\<close> returns, every row of \<open>a\<close> and of the neighbour is
  \<open>NULL\<close>.  The code tests the neighbour's count for \<^verbatim>\<open>== 1\<close>; the neighbour carries the
  traversed PIP, so the annotator counted at least 1 for it and the two tests agree.
\<close>

theorem classify_nodes_stub_pair_null:
  assumes "count_sites_and_pips_on_nodes db0 = Inr db" and "classify_nodes db = Inr db'"
    and "(a, sa) \<in> set (ambiguous_nodes db)"
    and "classify_nodes_neighbor db a = Inr t"
    and "t_other_site_wire_pkey t = None"
    and "t_other_number_pips t = Some k" and "k \<le> 1"
    and "r \<in> set (node db')" and "node_pkey r = a \<or> node_pkey r = t_other_node_pkey t"
  shows "classification r = Some NULL"
proof -
  from annotated_neighbor_pips[OF assms(1,4)] assms(6,7)
  have "t_other_number_pips t = Some 1" by auto
  from classify_nodes_null_pair[OF assms(2,3,4,5) this assms(8,9)] show ?thesis .
qed

theorem classify_nodes_stub_pair_null_witness:
  "count_sites_and_pips_on_nodes ex_stub = Inr ex_stub_annotated \<and>
   classify_nodes ex_stub_annotated = Inr ex_stub_classified \<and>
   (1, 1) \<in> set (ambiguous_nodes ex_stub_annotated) \<and>
   classify_nodes_neighbor ex_stub_annotated 1 = Inr ex_stub_visit \<and>
   t_other_site_wire_pkey ex_stub_visit = None \<and>
   t_other_number_pips ex_stub_visit = Some 1 \<and>
   t_other_node_pkey ex_stub_visit = 2 \<and>
   node ex_stub_classified ! 0 \<in> set (node ex_stub_classified) \<and>
   node_pkey (node ex_stub_classified ! 0) = 1 \<and>
   classification (node ex_stub_classified ! 0) = Some NULL \<and>
   node ex_stub_classified ! 1 \<in> set (node ex_stub_classified) \<and>
   node_pkey (node ex_stub_classified ! 1) = 2 \<and>
   classification (node ex_stub_classified ! 1) = Some NULL"
proof -
  have amb: "(1, 1) \<in> set (ambiguous_nodes ex_stub_annotated)"
    by (simp add: ex_stub_def ex_stub_annotated_def mk_defs classify_defs)
  have v: "classify_nodes_neighbor ex_stub_annotated 1 = Inr ex_stub_visit"
    by (simp add: ex_stub_def ex_stub_annotated_def ex_stub_visit_def mk_defs classify_defs)
  have f: "t_other_site_wire_pkey ex_stub_visit = None"
    "t_other_number_pips ex_stub_visit = Some 1" "(1::int) \<le> 1"
    "t_other_node_pkey ex_stub_visit = 2"
    by (simp_all add: ex_stub_visit_def)
  have mem: "node ex_stub_classified ! 0 \<in> set (node ex_stub_classified)"
    "node ex_stub_classified ! 1 \<in> set (node ex_stub_classified)"
    by (simp_all add: ex_stub_classified_def)
  have k: "node_pkey (node ex_stub_classified ! 0) = 1" "node_pkey (node ex_stub_classified ! 1) = 2"
    by (simp_all add: ex_stub_classified_def mk_defs)
  have c0: "classification (node ex_stub_classified ! 0) = Some NULL"
    by (rule classify_nodes_stub_pair_null[OF ex_stub_annotated_eq ex_stub_classified_eq amb v f(1,2,3) mem(1)])
       (use k(1) in simp)
  have c1: "classification (node ex_stub_classified ! 1) = Some NULL"
    by (rule classify_nodes_stub_pair_null[OF ex_stub_annotated_eq ex_stub_classified_eq amb v f(1,2,3) mem(2)])
       (use k(2) f(4) in simp)
  show ?thesis
    using ex_stub_annotated_eq ex_stub_classified_eq amb v f(1,2,4) mem k c0 c1 by (intro conjI)
qed

lemmas import_defs = dict_get_def dict_set_def new_set_def set_ior_def node_or_new_def
  next_pkey_def import_wire_def connect_def insert_node_def import_nodes_def first_row_def
  empty_database_def

lemma ex_grid_db_nodes_eq:
  "import_nodes ex_get_wires ex_grid ex_connections ex_wire_dflt ex_node_dflt ex_grid_db
     = Inr ex_grid_db_nodes"
  by (auto simp add: ex_grid_def ex_grid_db_def ex_get_wires_def ex_wire_dflt_def ex_node_dflt_def
      ex_connections_def ex_grid_db_nodes_def mk_defs import_defs)

section \<open>The Node Former\<close>

subsection \<open>Dictionaries and fresh keys\<close>

lemma fold_max_ge: "a \<le> fold max ks (a::nat)"
proof (induction ks arbitrary: a)
  case Nil
  then show ?case by simp
next
  case (Cons x ks)
  have "a \<le> max x a" by simp
  also have "\<dots> \<le> fold max ks (max x a)" by (rule Cons.IH)
  finally show ?case by simp
qed

lemma fold_max_member: "k \<in> set ks \<Longrightarrow> k \<le> fold max ks (a::nat)"
proof (induction ks arbitrary: a)
  case Nil
  then show ?case by simp
next
  case (Cons x ks)
  show ?case
  proof (cases "k = x")
    case True
    have "x \<le> max x a" by simp
    also have "\<dots> \<le> fold max ks (max x a)" by (rule fold_max_ge)
    finally show ?thesis using True by simp
  next
    case False
    with Cons show ?thesis by simp
  qed
qed

lemma next_pkey_fresh: "k \<in> set ks \<Longrightarrow> k < next_pkey ks"
  unfolding next_pkey_def using fold_max_member[of k ks 0] by simp

lemma next_pkey_notin: "next_pkey ks \<notin> set ks"
  using next_pkey_fresh[of "next_pkey ks" ks] by auto

lemma dict_set_new:
  "k \<notin> fst ` set d \<Longrightarrow> dict_set d k v = d @ [(k, v)]"
  by (simp add: dict_set_def)

lemma dict_set_old:
  "k \<in> fst ` set d \<Longrightarrow>
     dict_set d k v = map (\<lambda>(k', v'). if k' = k then (k', v) else (k', v')) d"
  by (simp add: dict_set_def)

lemma dict_get_Inr:
  "dict_get d k = Inr v \<Longrightarrow> (k, v) \<in> set d"
  by (auto simp: dict_get_def dest: map_of_SomeD split: option.splits)

lemma distinct_fst_unique:
  "distinct (map fst d) \<Longrightarrow> (k, v) \<in> set d \<Longrightarrow> (k, v') \<in> set d \<Longrightarrow> v = v'"
  by (meson eq_key_imp_eq_value)

subsection \<open>Enumerating the wires\<close>

lemma import_wire_enumerated:
  assumes "import_wire dflt tname pt tt wn s = Inr s'" "wires_enumerated s"
  shows "wires_enumerated s'"
    and "length (wire (fst s')) = Suc (length (wire (fst s)))"
    and "node (fst s') = node (fst s)"
proof -
  obtain db twm ws where s: "s = (db, twm, ws)" by (cases s)
  from assms(2) have inv: "map wire_pkey (wire db) = map fst ws" "distinct (map fst ws)"
    "map snd twm = map fst ws" "distinct (map fst twm)" "\<forall>x \<in> set ws. snd x = None"
    by (simp_all add: wires_enumerated_def s)
  define k where "k = next_pkey (map wire_pkey (wire db))"
  from assms(1) obtain wit where new: "(tname, wn) \<notin> fst ` set twm"
    and s': "s' = (db\<lparr>wire := wire db @ [dflt\<lparr>wire_pkey := k, wire_phy_tile_pkey := pt,
                                            wire_wire_in_tile_pkey := wit\<rparr>]\<rparr>,
                  dict_set twm (tname, wn) k, dict_set ws k None)"
    by (auto simp: import_wire_def s k_def Let_def split: option.splits if_splits)
  have "next_pkey (map wire_pkey (wire db)) \<notin> set (map wire_pkey (wire db))"
    by (rule next_pkey_notin)
  then have fresh: "k \<notin> fst ` set ws"
    unfolding k_def inv(1) by simp
  have ws': "dict_set ws k None = ws @ [(k, None)]" by (rule dict_set_new[OF fresh])
  have twm': "dict_set twm (tname, wn) k = twm @ [((tname, wn), k)]" by (rule dict_set_new[OF new])
  show "wires_enumerated s'"
    using inv fresh new by (auto simp: wires_enumerated_def s' ws' twm')
  show "length (wire (fst s')) = Suc (length (wire (fst s)))" by (simp add: s s')
  show "node (fst s') = node (fst s)" by (simp add: s s')
qed

lemma import_tile_wires_enumerated:
  assumes "import_tile_wires dflt tname pt tt wns s = Inr s'" "wires_enumerated s"
  shows "wires_enumerated s' \<and> length (wire (fst s')) = length (wire (fst s)) + length wns
           \<and> node (fst s') = node (fst s)"
  using assms
proof (induction wns arbitrary: s)
  case Nil
  then show ?case by simp
next
  case (Cons wn wns)
  from Cons.prems(1) obtain s1 where s1: "import_wire dflt tname pt tt wn s = Inr s1"
    and rest: "import_tile_wires dflt tname pt tt wns s1 = Inr s'"
    by (auto split: sum.splits)
  note step = import_wire_enumerated[OF s1 Cons.prems(2)]
  from Cons.IH[OF rest step(1)] step(2,3) show ?case by simp
qed

lemma import_wires_enumerated:
  assumes "import_wires get_wires dflt grid s = Inr s'" "wires_enumerated s"
  shows "wires_enumerated s' \<and>
         length (wire (fst s')) = length (wire (fst s)) + length (concat (map (\<lambda>(t, tt). get_wires tt) grid))
           \<and> node (fst s') = node (fst s)"
  using assms
proof (induction grid arbitrary: s)
  case Nil
  then show ?case by simp
next
  case (Cons g grid)
  obtain tname tt where g: "g = (tname, tt)" by (cases g)
  from Cons.prems(1) obtain r where
    r: "first_row (filter (\<lambda>r. pt_name r = tname) (phy_tile (fst s))) = Some r"
    unfolding g by (cases "first_row (filter (\<lambda>r. pt_name r = tname) (phy_tile (fst s)))") auto
  from Cons.prems(1) obtain s1 where
    s1: "import_tile_wires dflt tname (pt_pkey r) (pt_tile_type_pkey r) (get_wires tt) s = Inr s1"
    and rest: "import_wires get_wires dflt grid s1 = Inr s'"
    unfolding g
    by (cases "import_tile_wires dflt tname (pt_pkey r) (pt_tile_type_pkey r) (get_wires tt) s")
       (auto simp: r)
  note step = import_tile_wires_enumerated[OF s1 Cons.prems(2)]
  from Cons.IH[OF rest] step show ?case by (simp add: g)
qed

lemma wires_enumerated_init:
  "wire db = [] \<Longrightarrow> wires_enumerated (db, [], [])"
  by (simp add: wires_enumerated_def)

subsection \<open>Merging along the connections\<close>

lemma allocated_only_refl: "allocated_only st st"
  by (simp add: allocated_only_def)

lemma allocated_only_trans:
  "allocated_only st st1 \<Longrightarrow> allocated_only st1 st2 \<Longrightarrow> allocated_only st st2"
  by (auto simp: allocated_only_def)

lemma heap_inv_allocated:
  assumes "heap_inv st" "allocated_only st st1"
  shows "heap_inv st1"
  unfolding heap_inv_def
proof (intro conjI allI impI)
  from assms show "distinct (map fst (wires st1))"
    by (simp add: heap_inv_def allocated_only_def)
next
  fix k a assume "(k, Some a) \<in> set (wires st1)"
  then have mem: "(k, Some a) \<in> set (wires st)" using assms(2) by (simp add: allocated_only_def)
  with assms(1) have a: "a < next_addr st" "k \<in> set (heap st a)" "distinct (heap st a)"
    "\<forall>k' \<in> set (heap st a). (k', Some a) \<in> set (wires st)"
    unfolding heap_inv_def by blast+
  from a(1) assms(2) have h: "heap st1 a = heap st a" "a < next_addr st1" "wires st1 = wires st"
    by (auto simp: allocated_only_def)
  show "a < next_addr st1" by (rule h(2))
  show "k \<in> set (heap st1 a)" unfolding h(1) by (rule a(2))
  show "distinct (heap st1 a)" unfolding h(1) by (rule a(3))
  show "\<forall>k' \<in> set (heap st1 a). (k', Some a) \<in> set (wires st1)" unfolding h(1,3) by (rule a(4))
qed

lemma node_or_new_props_conj:
  assumes inv: "heap_inv st" and mem: "(k, ref) \<in> set (wires st)"
    and new: "node_or_new st k ref = (st1, a)"
  shows "allocated_only st st1 \<and> a < next_addr st1 \<and> k \<in> set (heap st1 a) \<and>
         distinct (heap st1 a) \<and> (\<forall>k' \<in> set (heap st1 a). (k', ref) \<in> set (wires st))"
proof (cases ref)
  case None
  with new have st1: "st1 = st\<lparr>heap := (heap st)(next_addr st := [k]),
                               next_addr := Suc (next_addr st)\<rparr>" and a: "a = next_addr st"
    by (auto simp: node_or_new_def new_set_def)
  show ?thesis using mem by (simp add: st1 a None allocated_only_def)
next
  case (Some a')
  with new have st1: "st1 = st" and a: "a = a'" by (simp_all add: node_or_new_def)
  from inv mem have p: "a < next_addr st" "k \<in> set (heap st a)" "distinct (heap st a)"
    "\<forall>k' \<in> set (heap st a). (k', Some a) \<in> set (wires st)"
    unfolding heap_inv_def Some a[symmetric] by blast+
  show ?thesis using p by (simp add: st1 Some a allocated_only_refl)
qed

lemma node_or_new_props:
  assumes inv: "heap_inv st" and mem: "(k, ref) \<in> set (wires st)"
    and new: "node_or_new st k ref = (st1, a)"
  shows "allocated_only st st1" and "a < next_addr st1" and "k \<in> set (heap st1 a)"
    and "distinct (heap st1 a)"
    and "\<forall>k' \<in> set (heap st1 a). (k', ref) \<in> set (wires st)"
    and "ref = None \<Longrightarrow> a = next_addr st \<and> heap st1 a = [k]"
    and "ref \<noteq> None \<Longrightarrow> ref = Some a \<and> st1 = st"
proof -
  note c = node_or_new_props_conj[OF assms]
  from c show "allocated_only st st1" by (elim conjE)
  from c show "a < next_addr st1" by (elim conjE)
  from c show "k \<in> set (heap st1 a)" by (elim conjE)
  from c show "distinct (heap st1 a)" by (elim conjE)
  from c show "\<forall>k' \<in> set (heap st1 a). (k', ref) \<in> set (wires st)" by (elim conjE)
next
  assume "ref = None"
  with new show "a = next_addr st \<and> heap st1 a = [k]"
    by (auto simp: node_or_new_def new_set_def)
next
  assume "ref \<noteq> None"
  with new show "ref = Some a \<and> st1 = st"
    by (cases ref) (auto simp: node_or_new_def)
qed

lemma fold_dict_set:
  assumes "set S \<subseteq> fst ` set d"
  shows "fold (\<lambda>w d. dict_set d w v) S d =
           map (\<lambda>(k, x). if k \<in> set S then (k, v) else (k, x)) d"
  using assms
proof (induction S arbitrary: d)
  case Nil
  then show ?case by (simp add: case_prod_unfold)
next
  case (Cons w S)
  have w: "w \<in> fst ` set d" and S: "set S \<subseteq> fst ` set d" using Cons.prems by auto
  let ?d1 = "map (\<lambda>(k', v'). if k' = w then (k', v) else (k', v')) d"
  have d1: "dict_set d w v = ?d1" by (rule dict_set_old[OF w])
  have keys: "fst ` set ?d1 = fst ` set d" by force
  have "fold (\<lambda>w d. dict_set d w v) (w # S) d = fold (\<lambda>w d. dict_set d w v) S ?d1"
    by (simp add: d1)
  also have "\<dots> = map (\<lambda>(k, x). if k \<in> set S then (k, v) else (k, x)) ?d1"
    by (rule Cons.IH) (use S keys in simp)
  also have "\<dots> = map (\<lambda>(k, x). if k \<in> set (w # S) then (k, v) else (k, x)) d"
    by (auto simp: case_prod_unfold)
  finally show ?case .
qed

lemma set_ior_props [simp]:
  "set (set_ior a b) = set a \<union> set b"
  "distinct a \<Longrightarrow> distinct b \<Longrightarrow> distinct (set_ior a b)"
  by (auto simp: set_ior_def)

lemma connect_InrE:
  assumes "connect twm c st = Inr st'"
  obtains a_pkey b_pkey a_ref b_ref st1 a_node st2 b_node where
    "dict_get twm (fst c) = Inr a_pkey" "dict_get twm (snd c) = Inr b_pkey"
    "dict_get (wires st) a_pkey = Inr a_ref" "dict_get (wires st) b_pkey = Inr b_ref"
    "node_or_new st a_pkey a_ref = (st1, a_node)" "node_or_new st1 b_pkey b_ref = (st2, b_node)"
    "st' = (if a_node \<noteq> b_node
            then st2\<lparr>heap := (heap st2)(a_node := set_ior (heap st2 a_node) (heap st2 b_node)),
                     wires := fold (\<lambda>w d. dict_set d w (Some a_node))
                                (set_ior (heap st2 a_node) (heap st2 b_node)) (wires st2)\<rparr>
            else st2)"
proof -
  from assms obtain a_pkey where 1: "dict_get twm (fst c) = Inr a_pkey"
    by (cases "dict_get twm (fst c)") (auto simp: connect_def)
  from assms obtain b_pkey where 2: "dict_get twm (snd c) = Inr b_pkey"
    by (cases "dict_get twm (snd c)") (auto simp: connect_def 1)
  from assms obtain a_ref where 3: "dict_get (wires st) a_pkey = Inr a_ref"
    by (cases "dict_get (wires st) a_pkey") (auto simp: connect_def 1 2)
  from assms obtain b_ref where 4: "dict_get (wires st) b_pkey = Inr b_ref"
    by (cases "dict_get (wires st) b_pkey") (auto simp: connect_def 1 2 3)
  obtain st1 a_node where 5: "node_or_new st a_pkey a_ref = (st1, a_node)"
    by (cases "node_or_new st a_pkey a_ref")
  obtain st2 b_node where 6: "node_or_new st1 b_pkey b_ref = (st2, b_node)"
    by (cases "node_or_new st1 b_pkey b_ref")
  from assms have "st' = (if a_node \<noteq> b_node
            then st2\<lparr>heap := (heap st2)(a_node := set_ior (heap st2 a_node) (heap st2 b_node)),
                     wires := fold (\<lambda>w d. dict_set d w (Some a_node))
                                (set_ior (heap st2 a_node) (heap st2 b_node)) (wires st2)\<rparr>
            else st2)"
    by (simp add: connect_def 1 2 3 4 5 6 Let_def split: if_splits)
  with 1 2 3 4 5 6 show thesis by (rule that)
qed

lemma connect_heap_inv:
  assumes run: "connect twm c st = Inr st'" and inv: "heap_inv st"
  shows "heap_inv st' \<and> map fst (wires st') = map fst (wires st) \<and>
         (\<forall>k. (k, None) \<in> set (wires st) \<longrightarrow> dict_get twm (fst c) \<noteq> Inr k \<longrightarrow>
               dict_get twm (snd c) \<noteq> Inr k \<longrightarrow> (k, None) \<in> set (wires st'))"
proof -
  from run obtain a_pkey b_pkey a_ref b_ref st1 a_node st2 b_node where
    ga: "dict_get twm (fst c) = Inr a_pkey" and gb: "dict_get twm (snd c) = Inr b_pkey"
    and ra: "dict_get (wires st) a_pkey = Inr a_ref" and rb: "dict_get (wires st) b_pkey = Inr b_ref"
    and na: "node_or_new st a_pkey a_ref = (st1, a_node)"
    and nb: "node_or_new st1 b_pkey b_ref = (st2, b_node)"
    and st': "st' = (if a_node \<noteq> b_node
            then st2\<lparr>heap := (heap st2)(a_node := set_ior (heap st2 a_node) (heap st2 b_node)),
                     wires := fold (\<lambda>w d. dict_set d w (Some a_node))
                                (set_ior (heap st2 a_node) (heap st2 b_node)) (wires st2)\<rparr>
            else st2)"
    by (rule connect_InrE)
  have ma: "(a_pkey, a_ref) \<in> set (wires st)" by (rule dict_get_Inr[OF ra])
  have mb: "(b_pkey, b_ref) \<in> set (wires st)" by (rule dict_get_Inr[OF rb])
  note pa = node_or_new_props[OF inv ma na]
  have inv1: "heap_inv st1" by (rule heap_inv_allocated[OF inv pa(1)])
  have w1: "wires st1 = wires st" using pa(1) by (simp add: allocated_only_def)
  have mb1: "(b_pkey, b_ref) \<in> set (wires st1)" using mb by (simp add: w1)
  note pb = node_or_new_props[OF inv1 mb1 nb]
  have al2: "allocated_only st st2" by (rule allocated_only_trans[OF pa(1) pb(1)])
  have inv2: "heap_inv st2" by (rule heap_inv_allocated[OF inv al2])
  have w2: "wires st2 = wires st" using al2 by (simp add: allocated_only_def)
  have ha: "heap st2 a_node = heap st1 a_node"
    using pa(2) pb(1) by (simp add: allocated_only_def)
  have hold: "heap st2 y = heap st y" if "y < next_addr st" for y
    using that al2 by (simp add: allocated_only_def)
  have dist: "distinct (map fst (wires st))" using inv by (simp add: heap_inv_def)
  have mema: "(k', a_ref) \<in> set (wires st)" if "k' \<in> set (heap st2 a_node)" for k'
    using that pa(5) unfolding ha by blast
  have memb: "(k', b_ref) \<in> set (wires st)" if "k' \<in> set (heap st2 b_node)" for k'
    using that pb(5) unfolding w1 by blast
  show ?thesis
  proof (cases "a_node = b_node")
    case True
    then have "st' = st2" by (simp add: st')
    with inv2 w2 show ?thesis by simp
  next
    case False
    define M where "M = set (heap st2 a_node) \<union> set (heap st2 b_node)"
    let ?merged = "set_ior (heap st2 a_node) (heap st2 b_node)"
    have setm: "set ?merged = M" by (simp add: M_def)
    have keys: "M \<subseteq> fst ` set (wires st)"
      unfolding M_def using mema memb by force
    have sub: "set ?merged \<subseteq> fst ` set (wires st)" unfolding setm by (rule keys)
    have fd: "fold (\<lambda>w d. dict_set d w (Some a_node)) ?merged (wires st) =
        map (\<lambda>(k, x). if k \<in> M then (k, Some a_node) else (k, x)) (wires st)"
      using fold_dict_set[OF sub, of "Some a_node"] unfolding setm .
    have "wires st' = fold (\<lambda>w d. dict_set d w (Some a_node)) ?merged (wires st)"
      using False by (simp add: st' w2)
    then have ws': "wires st' = map (\<lambda>(k, x). if k \<in> M then (k, Some a_node) else (k, x)) (wires st)"
      by (simp only: fd)
    have hp': "heap st' = (heap st2)(a_node := ?merged)" "next_addr st' = next_addr st2"
      using False by (simp_all add: st')
    have kf: "map fst (wires st') = map fst (wires st)"
      unfolding ws' by (simp add: case_prod_unfold comp_def cong: if_cong)
    have inM: "(k, Some a_node) \<in> set (wires st')" if "k \<in> M" for k
    proof -
      from keys that obtain x where "(k, x) \<in> set (wires st)" by force
      then have "(\<lambda>(k, x). if k \<in> M then (k, Some a_node) else (k, x)) (k, x) \<in> set (wires st')"
        unfolding ws' set_map by (rule imageI)
      then show ?thesis using that by simp
    qed
    have notM: "(k, x) \<in> set (wires st')" if "(k, x) \<in> set (wires st)" "k \<notin> M" for k x
    proof -
      from that(1) have "(\<lambda>(k, x). if k \<in> M then (k, Some a_node) else (k, x)) (k, x) \<in> set (wires st')"
        unfolding ws' set_map by (rule imageI)
      then show ?thesis using that(2) by simp
    qed
    have from': "(k \<in> M \<and> y = Some a_node) \<or> (k \<notin> M \<and> (k, y) \<in> set (wires st))"
      if "(k, y) \<in> set (wires st')" for k y
      using that unfolding ws' by (auto split: if_splits)
    have dist': "distinct (map fst (wires st'))" unfolding kf by (rule dist)
    have "\<forall>k y. (k, Some y) \<in> set (wires st') \<longrightarrow>
        y < next_addr st' \<and> k \<in> set (heap st' y) \<and> distinct (heap st' y) \<and>
          (\<forall>k' \<in> set (heap st' y). (k', Some y) \<in> set (wires st'))"
    proof (intro allI impI)
      fix k y assume ky: "(k, Some y) \<in> set (wires st')"
      from from'[OF ky] consider (new) "k \<in> M" "y = a_node" | (old) "k \<notin> M" "(k, Some y) \<in> set (wires st)"
        by auto
      then show "y < next_addr st' \<and> k \<in> set (heap st' y) \<and> distinct (heap st' y) \<and>
          (\<forall>k' \<in> set (heap st' y). (k', Some y) \<in> set (wires st'))"
      proof cases
        case new
        have "a_node < next_addr st2" using pa(2) pb(1) by (simp add: allocated_only_def)
        then have n1: "y < next_addr st'" by (simp add: hp' new(2))
        have n2: "heap st' y = ?merged" by (simp add: hp' new(2))
        have n3: "k \<in> set ?merged" unfolding setm by (rule new(1))
        have n4: "distinct ?merged"
          using pa(4) pb(4) unfolding ha[symmetric] by simp
        have n5: "\<forall>k' \<in> set ?merged. (k', Some y) \<in> set (wires st')"
          unfolding setm new(2) using inM by blast
        show ?thesis unfolding n2 using n1 n3 n4 n5 by (intro conjI)
      next
        case old
        from inv old(2) have y: "y < next_addr st" "k \<in> set (heap st y)" "distinct (heap st y)"
          "\<forall>k' \<in> set (heap st y). (k', Some y) \<in> set (wires st)"
          unfolding heap_inv_def by blast+
        have ya: "y \<noteq> a_node"
        proof
          assume eq: "y = a_node"
          have "a_ref \<noteq> None" using pa(6) y(1) eq by auto
          from pa(7)[OF this] have "a_ref = Some a_node" "st1 = st" by simp_all
          then have "heap st2 a_node = heap st a_node" using ha by simp
          with y(2) eq have "k \<in> M" by (simp add: M_def)
          with old(1) show False by simp
        qed
        have yb: "y \<noteq> b_node"
        proof
          assume eq: "y = b_node"
          have "next_addr st \<le> next_addr st1" using pa(1) by (simp add: allocated_only_def)
          then have "b_ref \<noteq> None" using pb(6) y(1) eq by auto
          from pb(7)[OF this] have "b_ref = Some b_node" "st2 = st1" by simp_all
          then have "heap st2 b_node = heap st b_node" using hold[OF y(1)] eq by simp
          with y(2) eq have "k \<in> M" by (simp add: M_def)
          with old(1) show False by simp
        qed
        have hy: "heap st' y = heap st y" using ya hold[OF y(1)] by (simp add: hp')
        have mem': "(k', Some y) \<in> set (wires st')" if k': "k' \<in> set (heap st y)" for k'
        proof -
          from y(4) k' have e: "(k', Some y) \<in> set (wires st)" by blast
          have "k' \<notin> M"
          proof
            assume "k' \<in> M"
            then consider "k' \<in> set (heap st2 a_node)" | "k' \<in> set (heap st2 b_node)"
              by (auto simp: M_def)
            then show False
            proof cases
              case 1
              from distinct_fst_unique[OF dist mema[OF 1] e] have "a_ref = Some y" .
              with pa(7) ya show False by auto
            next
              case 2
              from distinct_fst_unique[OF dist memb[OF 2] e] have "b_ref = Some y" .
              with pb(7) yb show False by auto
            qed
          qed
          from notM[OF e this] show ?thesis .
        qed
        have "y < next_addr st'" using y(1) al2 by (simp add: hp' allocated_only_def)
        with y(2,3) mem' show ?thesis by (simp add: hy)
      qed
    qed
    with dist' have inv': "heap_inv st'" unfolding heap_inv_def by (rule conjI)
    have keep: "(k, None) \<in> set (wires st')"
      if k: "(k, None) \<in> set (wires st)" "dict_get twm (fst c) \<noteq> Inr k" "dict_get twm (snd c) \<noteq> Inr k"
      for k
    proof -
      have ka: "k \<noteq> a_pkey" "k \<noteq> b_pkey" using k(2,3) ga gb by auto
      have "k \<notin> M"
      proof
        assume "k \<in> M"
        then consider "k \<in> set (heap st2 a_node)" | "k \<in> set (heap st2 b_node)"
          by (auto simp: M_def)
        then show False
        proof cases
          case 1
          from distinct_fst_unique[OF dist mema[OF 1] k(1)] have "a_ref = None" .
          from pa(6)[OF this] have h: "heap st1 a_node = [a_pkey]" by (rule conjunct2)
          from 1 have "k \<in> set [a_pkey]" unfolding ha h .
          with ka(1) show False by simp
        next
          case 2
          from distinct_fst_unique[OF dist memb[OF 2] k(1)] have "b_ref = None" .
          from pb(6)[OF this] have h: "heap st2 b_node = [b_pkey]" by (rule conjunct2)
          from 2 have "k \<in> set [b_pkey]" unfolding h .
          with ka(2) show False by simp
        qed
      qed
      from notM[OF k(1) this] show ?thesis .
    qed
    from inv' kf keep show ?thesis by blast
  qed
qed

lemma connect_all_heap_inv:
  assumes "connect_all twm cs st = Inr st'" "heap_inv st"
  shows "heap_inv st' \<and> map fst (wires st') = map fst (wires st) \<and>
         (\<forall>k. (k, None) \<in> set (wires st) \<longrightarrow>
               (\<forall>c \<in> set cs. dict_get twm (fst c) \<noteq> Inr k \<and> dict_get twm (snd c) \<noteq> Inr k) \<longrightarrow>
               (k, None) \<in> set (wires st'))"
  using assms
proof (induction cs arbitrary: st)
  case Nil
  then show ?case by simp
next
  case (Cons c cs)
  from Cons.prems(1) obtain st1 where c: "connect twm c st = Inr st1"
    and rest: "connect_all twm cs st1 = Inr st'"
    by (auto split: sum.splits)
  note step = connect_heap_inv[OF c Cons.prems(2)]
  from step have inv1: "heap_inv st1" by (elim conjE)
  note ih = Cons.IH[OF rest inv1]
  from step ih show ?case by (auto simp del: dict_get_def)
qed

lemma heap_inv_init:
  "distinct (map fst ws) \<Longrightarrow> \<forall>x \<in> set ws. snd x = None \<Longrightarrow>
   heap_inv \<lparr>heap = (\<lambda>a. []), next_addr = 0, wires = ws\<rparr>"
  by (auto simp: heap_inv_def)

section \<open>The constant network\<close>

lemmas constant_defs = create_track_def insert_node_classification_def create_constant_tracks_def
  set_node_track_def hardpin_wires_def connect_hardpins_to_constant_network_def next_pkey_def
  empty_database_def Let_def

subsection \<open>The constant nodes and their positions\<close>






subsection \<open>The constant nodes in the node table\<close>



subsection \<open>Hard pins\<close>

lemma set_node_track_tables:
  "wire (set_node_track tk wit db) = wire db"
  "site_type (set_node_track tk wit db) = site_type db"
  "site_pin (set_node_track tk wit db) = site_pin db"
  "wire_in_tile (set_node_track tk wit db) = wire_in_tile db"
  by (simp_all add: set_node_track_def)

lemma fold_set_node_track_tables:
  "wire (fold (set_node_track tk) wits db) = wire db \<and>
   site_type (fold (set_node_track tk) wits db) = site_type db \<and>
   site_pin (fold (set_node_track tk) wits db) = site_pin db \<and>
   wire_in_tile (fold (set_node_track tk) wits db) = wire_in_tile db"
  by (induction wits arbitrary: db) (simp_all add: set_node_track_tables)

lemma fold_set_node_track_node:
  "node (fold (set_node_track tk) wits db) =
     map (\<lambda>r. if \<exists>w \<in> set (wire db). wire_wire_in_tile_pkey w \<in> set wits \<and>
                                       wire_node_pkey w = Some (node_pkey r)
               then r\<lparr>track_pkey := Some tk\<rparr> else r) (node db)"
proof (induction wits arbitrary: db)
  case Nil
  then show ?case by (simp add: map_idI)
next
  case (Cons a wits)
  have n1: "node (set_node_track tk a db) =
      map (\<lambda>r. if \<exists>w \<in> set (wire db). wire_wire_in_tile_pkey w = a \<and>
                                       wire_node_pkey w = Some (node_pkey r)
               then r\<lparr>track_pkey := Some tk\<rparr> else r) (node db)"
    unfolding set_node_track_def by (auto intro!: map_cong[OF refl] simp: image_iff)
  show ?case
    unfolding fold_Cons comp_def Cons.IH set_node_track_tables n1 map_map
    by (rule map_cong[OF refl]) auto
qed

lemma hardpin_wires_cong:
  "site_pin db' = site_pin db \<Longrightarrow> wire_in_tile db' = wire_in_tile db \<Longrightarrow>
   hardpin_wires db' k name = hardpin_wires db k name"
  by (auto simp: hardpin_wires_def split: list.splits)

lemma connect_hardpins_InrD:
  assumes "connect_hardpins_to_constant_network db vcc gnd = Inr db'"
  obtains s pv restv pg restg where
    "filter (\<lambda>s. st_name s = ''TIEOFF'') (site_type db) = [s]"
    "filter (\<lambda>p. sp_site_type_pkey p = st_pkey s \<and> sp_name p = ''HARD1'') (site_pin db) = pv # restv"
    "filter (\<lambda>p. sp_site_type_pkey p = st_pkey s \<and> sp_name p = ''HARD0'') (site_pin db) = pg # restg"
    "db' = fold (set_node_track gnd)
             (map wit_pkey (filter (\<lambda>wt. wit_site_pin_pkey wt = Some (sp_pkey pg)) (wire_in_tile db)))
             (fold (set_node_track vcc)
                (map wit_pkey (filter (\<lambda>wt. wit_site_pin_pkey wt = Some (sp_pkey pv)) (wire_in_tile db)))
                db)"
proof -
  from assms obtain s where s: "filter (\<lambda>s. st_name s = ''TIEOFF'') (site_type db) = [s]"
    by (cases "filter (\<lambda>s. st_name s = ''TIEOFF'') (site_type db)")
       (auto simp: connect_hardpins_to_constant_network_def split: if_splits)
  from assms obtain pv restv where pv:
    "filter (\<lambda>p. sp_site_type_pkey p = st_pkey s \<and> sp_name p = ''HARD1'') (site_pin db) = pv # restv"
    by (cases "filter (\<lambda>p. sp_site_type_pkey p = st_pkey s \<and> sp_name p = ''HARD1'') (site_pin db)")
       (auto simp: connect_hardpins_to_constant_network_def s hardpin_wires_def)
  let ?vw = "map wit_pkey (filter (\<lambda>wt. wit_site_pin_pkey wt = Some (sp_pkey pv)) (wire_in_tile db))"
  let ?db1 = "fold (set_node_track vcc) ?vw db"
  have hv: "hardpin_wires db (st_pkey s) ''HARD1'' = Inr ?vw"
    by (simp add: hardpin_wires_def pv)
  have cong: "hardpin_wires ?db1 (st_pkey s) ''HARD0'' = hardpin_wires db (st_pkey s) ''HARD0''"
    by (rule hardpin_wires_cong) (simp_all add: fold_set_node_track_tables)
  from assms have run: "(case hardpin_wires db (st_pkey s) ''HARD0'' of
                       Inl e \<Rightarrow> Inl e
                     | Inr gnd_wires \<Rightarrow> Inr (fold (set_node_track gnd) gnd_wires ?db1)) = Inr db'"
    by (simp add: connect_hardpins_to_constant_network_def s hv cong Let_def)
  then obtain pg restg where pg:
    "filter (\<lambda>p. sp_site_type_pkey p = st_pkey s \<and> sp_name p = ''HARD0'') (site_pin db) = pg # restg"
    by (cases "filter (\<lambda>p. sp_site_type_pkey p = st_pkey s \<and> sp_name p = ''HARD0'') (site_pin db)")
       (auto simp: hardpin_wires_def)
  from run have "db' = fold (set_node_track gnd)
             (map wit_pkey (filter (\<lambda>wt. wit_site_pin_pkey wt = Some (sp_pkey pg)) (wire_in_tile db)))
             ?db1"
    by (simp add: hardpin_wires_def pg)
  with s pv pg show thesis by (rule that)
qed

lemma length_le_one_eq:
  "length xs \<le> 1 \<Longrightarrow> a \<in> set xs \<Longrightarrow> b \<in> set xs \<Longrightarrow> a = b"
  by (cases xs) auto

lemma distinct_map_eq:
  "distinct (map f xs) \<Longrightarrow> x \<in> set xs \<Longrightarrow> y \<in> set xs \<Longrightarrow> f x = f y \<Longrightarrow> x = y"
  by (meson distinct_map inj_on_def)

text \<open>
  C7.  The database passes the site-pin check of the annotator (the assertion of
  \<open>count_sites_and_pips_on_nodes\<close>, which reads the wires and the wire-in-tile rows
  only), site pins have a primary key, and a site type has one pin of a name.  Then, once
  \<open>connect_hardpins_to_constant_network\<close> has returned: the wire table is unchanged; the
  node table has the rows of the input table, in their order, each changed in its track
  reference only; and the row of every node that owns a wire bound to the pin
  \<^verbatim>\<open>HARD1\<close> of a \<^verbatim>\<open>TIEOFF\<close> site refers to the VCC track, of every node that owns a
  wire bound to \<^verbatim>\<open>HARD0\<close>, to the GND track.
\<close>

theorem connect_hardpins_tracks:
  assumes run: "connect_hardpins_to_constant_network db vcc gnd = Inr db'"
    and annot: "count_sites_and_pips_on_nodes db = Inr dba"
    and pk: "distinct (map sp_pkey (site_pin db))"
    and names: "distinct (map (\<lambda>p. (sp_site_type_pkey p, sp_name p)) (site_pin db))"
  shows "wire db' = wire db \<and> length (node db') = length (node db) \<and>
     (\<forall>i < length (node db).
        node db' ! i = (node db ! i)\<lparr>track_pkey := track_pkey (node db' ! i)\<rparr> \<and>
        (\<forall>w \<in> set (wire db). wire_node_pkey w = Some (node_pkey (node db ! i)) \<longrightarrow>
           (tieoff_wire db ''HARD1'' w \<longrightarrow> track_pkey (node db' ! i) = Some vcc) \<and>
           (tieoff_wire db ''HARD0'' w \<longrightarrow> track_pkey (node db' ! i) = Some gnd)))"
proof -
  from run obtain s pv restv pg restg where
    s: "filter (\<lambda>s. st_name s = ''TIEOFF'') (site_type db) = [s]"
    and pv: "filter (\<lambda>p. sp_site_type_pkey p = st_pkey s \<and> sp_name p = ''HARD1'') (site_pin db) = pv # restv"
    and pg: "filter (\<lambda>p. sp_site_type_pkey p = st_pkey s \<and> sp_name p = ''HARD0'') (site_pin db) = pg # restg"
    and db': "db' = fold (set_node_track gnd)
             (map wit_pkey (filter (\<lambda>wt. wit_site_pin_pkey wt = Some (sp_pkey pg)) (wire_in_tile db)))
             (fold (set_node_track vcc)
                (map wit_pkey (filter (\<lambda>wt. wit_site_pin_pkey wt = Some (sp_pkey pv)) (wire_in_tile db)))
                db)"
    by (rule connect_hardpins_InrD)
  define vw where "vw = map wit_pkey (filter (\<lambda>wt. wit_site_pin_pkey wt = Some (sp_pkey pv)) (wire_in_tile db))"
  define gw where "gw = map wit_pkey (filter (\<lambda>wt. wit_site_pin_pkey wt = Some (sp_pkey pg)) (wire_in_tile db))"
  define V :: "node_row \<Rightarrow> bool" where
    "V r \<longleftrightarrow> (\<exists>w \<in> set (wire db). wire_wire_in_tile_pkey w \<in> set vw \<and>
                  wire_node_pkey w = Some (node_pkey r))" for r
  define G :: "node_row \<Rightarrow> bool" where
    "G r \<longleftrightarrow> (\<exists>w \<in> set (wire db). wire_wire_in_tile_pkey w \<in> set gw \<and>
                  wire_node_pkey w = Some (node_pkey r))" for r
  define h :: "node_row \<Rightarrow> node_row" where
    "h r = (if G r then r\<lparr>track_pkey := Some gnd\<rparr>
            else if V r then r\<lparr>track_pkey := Some vcc\<rparr> else r)" for r
  have w1: "wire (fold (set_node_track vcc) vw db) = wire db"
    using fold_set_node_track_tables[of vcc vw db] by (elim conjE)
  have wires: "wire db' = wire db"
    unfolding db' vw_def[symmetric] gw_def[symmetric]
    using fold_set_node_track_tables[of gnd gw "fold (set_node_track vcc) vw db"] w1 by simp
  have n1: "node (fold (set_node_track vcc) vw db) =
              map (\<lambda>r. if V r then r\<lparr>track_pkey := Some vcc\<rparr> else r) (node db)"
    unfolding fold_set_node_track_node V_def ..
  have n2: "node db' = map (\<lambda>r. if G r then r\<lparr>track_pkey := Some gnd\<rparr> else r)
                         (node (fold (set_node_track vcc) vw db))"
    unfolding db' vw_def[symmetric] gw_def[symmetric] fold_set_node_track_node w1 G_def ..
  have pres: "G (if V r then r\<lparr>track_pkey := Some vcc\<rparr> else r) = G r" for r
    by (simp add: G_def)
  have nodes: "node db' = map h (node db)"
    unfolding n2 n1 map_map
    by (rule map_cong[OF refl]) (simp add: h_def pres)
  have len: "length (node db') = length (node db)" unfolding nodes by simp
  have shape: "h r = r\<lparr>track_pkey := track_pkey (h r)\<rparr>" for r
    by (simp add: h_def)
  have pvm: "pv \<in> set (site_pin db)" "sp_site_type_pkey pv = st_pkey s" "sp_name pv = ''HARD1''"
  proof -
    have "pv \<in> set (filter (\<lambda>p. sp_site_type_pkey p = st_pkey s \<and> sp_name p = ''HARD1'') (site_pin db))"
      unfolding pv by simp
    then show "pv \<in> set (site_pin db)" "sp_site_type_pkey pv = st_pkey s" "sp_name pv = ''HARD1''"
      by simp_all
  qed
  have pgm: "pg \<in> set (site_pin db)" "sp_site_type_pkey pg = st_pkey s" "sp_name pg = ''HARD0''"
  proof -
    have "pg \<in> set (filter (\<lambda>p. sp_site_type_pkey p = st_pkey s \<and> sp_name p = ''HARD0'') (site_pin db))"
      unfolding pg by simp
    then show "pg \<in> set (site_pin db)" "sp_site_type_pkey pg = st_pkey s" "sp_name pg = ''HARD0''"
      by simp_all
  qed
  have bound: "\<exists>wt \<in> set (wire_in_tile db). wit_pkey wt = wire_wire_in_tile_pkey w \<and>
                  wit_site_pin_pkey wt = Some (sp_pkey p0)"
    if tw: "tieoff_wire db name w" and p0: "p0 \<in> set (site_pin db)" "sp_site_type_pkey p0 = st_pkey s"
      "sp_name p0 = name" for w name p0
  proof -
    from tw obtain wt p s' where wt: "wt \<in> set (wire_in_tile db)" and p: "p \<in> set (site_pin db)"
      and s': "s' \<in> set (site_type db)"
      and f: "wit_pkey wt = wire_wire_in_tile_pkey w" "wit_site_pin_pkey wt = Some (sp_pkey p)"
        "sp_name p = name" "sp_site_type_pkey p = st_pkey s'" "st_name s' = ''TIEOFF''"
      unfolding tieoff_wire_def by (elim bexE conjE)
    have "s' \<in> set (filter (\<lambda>s. st_name s = ''TIEOFF'') (site_type db))"
      using s' f(5) by simp
    then have "s' = s" unfolding s by simp
    then have "(sp_site_type_pkey p, sp_name p) = (sp_site_type_pkey p0, sp_name p0)"
      using f(3,4) p0(2,3) by simp
    from distinct_map_eq[OF names p p0(1) this] have "p = p0" .
    with wt f(1,2) show ?thesis by blast
  qed
  have le: "length (filter (\<lambda>(wt, w). wire_node_pkey w = k) (site_wires db)) \<le> 1" for k
    using annot by (intro group_le_one) (simp add: count_sites_result)
  have hard1: "track_pkey (h r) = Some vcc"
    if w: "w \<in> set (wire db)" "wire_node_pkey w = Some (node_pkey r)" "tieoff_wire db ''HARD1'' w" for w r
  proof -
    from bound[OF w(3) pvm] obtain wt where wt: "wt \<in> set (wire_in_tile db)"
      "wit_pkey wt = wire_wire_in_tile_pkey w" "wit_site_pin_pkey wt = Some (sp_pkey pv)"
      by (elim bexE conjE)
    have "wit_pkey wt \<in> set vw" unfolding vw_def using wt(1,3) by simp
    then have "wire_wire_in_tile_pkey w \<in> set vw" unfolding wt(2) .
    with w(1,2) have V: "V r" unfolding V_def by blast
    have m1: "(wt, w) \<in> set (filter (\<lambda>(wt, w). wire_node_pkey w = Some (node_pkey r)) (site_wires db))"
      using wt w(1,2) by (simp add: site_wires_iff)
    have "\<not> G r"
    proof
      assume "G r"
      then obtain w2 where w2: "w2 \<in> set (wire db)" "wire_wire_in_tile_pkey w2 \<in> set gw"
        "wire_node_pkey w2 = Some (node_pkey r)"
        unfolding G_def by (elim bexE conjE)
      from w2(2) obtain wt2 where wt2: "wt2 \<in> set (wire_in_tile db)"
        "wit_site_pin_pkey wt2 = Some (sp_pkey pg)" "wit_pkey wt2 = wire_wire_in_tile_pkey w2"
        unfolding gw_def by auto
      have m2: "(wt2, w2) \<in> set (filter (\<lambda>(wt, w). wire_node_pkey w = Some (node_pkey r)) (site_wires db))"
        using wt2 w2(1,3) by (simp add: site_wires_iff)
      from length_le_one_eq[OF le m1 m2] have "wt = wt2" by simp
      then have "sp_pkey pv = sp_pkey pg" using wt(3) wt2(2) by simp
      from distinct_map_eq[OF pk pvm(1) pgm(1) this] have "pv = pg" .
      then have "sp_name pv = sp_name pg" by simp
      then show False unfolding pvm(3) pgm(3) by simp
    qed
    with V show ?thesis by (simp add: h_def)
  qed
  have hard0: "track_pkey (h r) = Some gnd"
    if w: "w \<in> set (wire db)" "wire_node_pkey w = Some (node_pkey r)" "tieoff_wire db ''HARD0'' w" for w r
  proof -
    from bound[OF w(3) pgm] obtain wt where wt: "wt \<in> set (wire_in_tile db)"
      "wit_pkey wt = wire_wire_in_tile_pkey w" "wit_site_pin_pkey wt = Some (sp_pkey pg)"
      by (elim bexE conjE)
    have "wit_pkey wt \<in> set gw" unfolding gw_def using wt(1,3) by simp
    then have "wire_wire_in_tile_pkey w \<in> set gw" unfolding wt(2) .
    with w(1,2) have "G r" unfolding G_def by blast
    then show ?thesis by (simp add: h_def)
  qed
  have row: "node db' ! i = (node db ! i)\<lparr>track_pkey := track_pkey (node db' ! i)\<rparr> \<and>
        (\<forall>w \<in> set (wire db). wire_node_pkey w = Some (node_pkey (node db ! i)) \<longrightarrow>
           (tieoff_wire db ''HARD1'' w \<longrightarrow> track_pkey (node db' ! i) = Some vcc) \<and>
           (tieoff_wire db ''HARD0'' w \<longrightarrow> track_pkey (node db' ! i) = Some gnd))"
    if i: "i < length (node db)" for i
  proof -
    have eq: "node db' ! i = h (node db ! i)" unfolding nodes using i by simp
    show ?thesis unfolding eq using shape[of "node db ! i"] hard1[of _ "node db ! i"] hard0[of _ "node db ! i"]
      by blast
  qed
  from wires len row show ?thesis by blast
qed

lemma ex_tieoff_connected_eq:
  "connect_hardpins_to_constant_network ex_tieoff 7 8 = Inr ex_tieoff_connected"
  by (simp add: ex_tieoff_def ex_tieoff_connected_def mk_defs constant_defs)

lemma ex_tieoff_annotated: "\<exists>dba. count_sites_and_pips_on_nodes ex_tieoff = Inr dba"
  by (simp add: ex_tieoff_def mk_defs annotator_defs)

theorem connect_hardpins_tracks_witness:
  "connect_hardpins_to_constant_network ex_tieoff 7 8 = Inr ex_tieoff_connected \<and>
   wire ex_tieoff_connected = wire ex_tieoff \<and>
   wire ex_tieoff ! 0 \<in> set (wire ex_tieoff) \<and>
   tieoff_wire ex_tieoff ''HARD1'' (wire ex_tieoff ! 0) \<and>
   wire_node_pkey (wire ex_tieoff ! 0) = Some (node_pkey (node ex_tieoff ! 0)) \<and>
   track_pkey (node ex_tieoff_connected ! 0) = Some 7 \<and>
   wire ex_tieoff ! 1 \<in> set (wire ex_tieoff) \<and>
   tieoff_wire ex_tieoff ''HARD0'' (wire ex_tieoff ! 1) \<and>
   wire_node_pkey (wire ex_tieoff ! 1) = Some (node_pkey (node ex_tieoff ! 1)) \<and>
   track_pkey (node ex_tieoff_connected ! 1) = Some 8"
proof -
  obtain dba where annot: "count_sites_and_pips_on_nodes ex_tieoff = Inr dba"
    using ex_tieoff_annotated ..
  have pk: "distinct (map sp_pkey (site_pin ex_tieoff))"
    and names: "distinct (map (\<lambda>p. (sp_site_type_pkey p, sp_name p)) (site_pin ex_tieoff))"
    by (simp_all add: ex_tieoff_def empty_database_def)
  have len: "length (node ex_tieoff) = 5" by (simp add: ex_tieoff_def)
  have m: "wire ex_tieoff ! 0 \<in> set (wire ex_tieoff)" "wire ex_tieoff ! 1 \<in> set (wire ex_tieoff)"
    by (simp_all add: ex_tieoff_def)
  have t: "tieoff_wire ex_tieoff ''HARD1'' (wire ex_tieoff ! 0)"
    "tieoff_wire ex_tieoff ''HARD0'' (wire ex_tieoff ! 1)"
    by (simp_all add: tieoff_wire_def ex_tieoff_def empty_database_def mk_defs)
  have n: "wire_node_pkey (wire ex_tieoff ! 0) = Some (node_pkey (node ex_tieoff ! 0))"
    "wire_node_pkey (wire ex_tieoff ! 1) = Some (node_pkey (node ex_tieoff ! 1))"
    by (simp_all add: ex_tieoff_def mk_defs)
  note inst = connect_hardpins_tracks[OF ex_tieoff_connected_eq annot pk names]
  from inst have w: "wire ex_tieoff_connected = wire ex_tieoff" by (rule conjunct1)
  from inst have all: "\<forall>i < length (node ex_tieoff). \<forall>w \<in> set (wire ex_tieoff).
      wire_node_pkey w = Some (node_pkey (node ex_tieoff ! i)) \<longrightarrow>
           (tieoff_wire ex_tieoff ''HARD1'' w \<longrightarrow> track_pkey (node ex_tieoff_connected ! i) = Some 7) \<and>
           (tieoff_wire ex_tieoff ''HARD0'' w \<longrightarrow> track_pkey (node ex_tieoff_connected ! i) = Some 8)"
    by blast
  have c0: "track_pkey (node ex_tieoff_connected ! 0) = Some 7"
    using all[rule_format, of 0 "wire ex_tieoff ! 0"] m(1) n(1) t(1) len by simp
  have c1: "track_pkey (node ex_tieoff_connected ! 1) = Some 8"
    using all[rule_format, of 1 "wire ex_tieoff ! 1"] m(2) n(2) t(2) len by simp
  show ?thesis
    using ex_tieoff_connected_eq w m(1) t(1) n(1) c0 m(2) t(2) n(2) c1 by (intro conjI)
qed

end
